theory Spec2Isabelle
  imports Main "HOL-Library.Char_ord" "HOL-Library.List_Lexorder"
begin

section \<open>Python strings\<close>

text \<open>
  A Python \<^verbatim>\<open>str\<close> is modelled as a \<^typ>\<open>string\<close> whose characters stand for the code
  points 0 to 255. The functions below are the \<^verbatim>\<open>str\<close> methods and the regular
  expressions the program uses, restricted to that range.
\<close>

text \<open>\<^verbatim>\<open>str.isspace\<close> on one character, which is also what \<^verbatim>\<open>\s\<close> matches.\<close>

definition py_isspace :: "char \<Rightarrow> bool" where
  "py_isspace c = (c \<in> set [CHR 0x09, CHR 0x0A, CHR 0x0B, CHR 0x0C, CHR 0x0D,
                              CHR 0x1C, CHR 0x1D, CHR 0x1E, CHR 0x1F, CHR 0x20,
                              CHR 0x85, CHR 0xA0])"

text \<open>The character classes \<^verbatim>\<open>[a-zA-Z0-9]\<close> and \<^verbatim>\<open>[a-zA-Z0-9_-]\<close>.\<close>

definition is_alnum :: "char \<Rightarrow> bool" where
  "is_alnum c = ((CHR ''a'' \<le> c \<and> c \<le> CHR ''z'') \<or> (CHR ''A'' \<le> c \<and> c \<le> CHR ''Z'')
                 \<or> (CHR ''0'' \<le> c \<and> c \<le> CHR ''9''))"

definition is_id_char :: "char \<Rightarrow> bool" where
  "is_id_char c = (is_alnum c \<or> c = CHR ''_'' \<or> c = CHR ''-'')"

text \<open>\<^verbatim>\<open>str.lower\<close>: A to Z and the upper-case letters of Latin-1 move up by 32.\<close>

definition py_lower_char :: "char \<Rightarrow> char" where
  "py_lower_char c = (let n = (of_char c :: nat) in
     if (65 \<le> n \<and> n \<le> 90) \<or> (192 \<le> n \<and> n \<le> 222 \<and> n \<noteq> 215)
     then char_of (n + 32) else c)"

definition py_lower :: "string \<Rightarrow> string" where
  "py_lower s = map py_lower_char s"

text \<open>\<^verbatim>\<open>s.strip()\<close> and \<^verbatim>\<open>s.strip(chars)\<close>.\<close>

definition strip_with :: "(char \<Rightarrow> bool) \<Rightarrow> string \<Rightarrow> string" where
  "strip_with P s = rev (dropWhile P (rev (dropWhile P s)))"

definition py_strip :: "string \<Rightarrow> string" where
  "py_strip s = strip_with py_isspace s"

definition py_strip_chars :: "string \<Rightarrow> string \<Rightarrow> string" where
  "py_strip_chars chars s = strip_with (\<lambda>c. c \<in> set chars) s"

text \<open>\<^verbatim>\<open>s.split()\<close>: the maximal runs of non-whitespace characters.\<close>

fun split_ws :: "string \<Rightarrow> string \<Rightarrow> string list" where
  "split_ws cur [] = (if cur = [] then [] else [cur])"
| "split_ws cur (c # cs) =
     (if py_isspace c then (if cur = [] then split_ws [] cs else cur # split_ws [] cs)
      else split_ws (cur @ [c]) cs)"

definition py_split :: "string \<Rightarrow> string list" where
  "py_split s = split_ws [] s"

text \<open>\<^verbatim>\<open>s.split(d)\<close> for a separator of one character.\<close>

fun py_split_on :: "char \<Rightarrow> string \<Rightarrow> string list" where
  "py_split_on d [] = [[]]"
| "py_split_on d (c # cs) =
     (if c = d then [] # py_split_on d cs
      else (case py_split_on d cs of [] \<Rightarrow> [[c]] | w # ws \<Rightarrow> (c # w) # ws))"

text \<open>\<^verbatim>\<open>sep.join(ws)\<close>.\<close>

fun py_join :: "string \<Rightarrow> string list \<Rightarrow> string" where
  "py_join sep [] = []"
| "py_join sep [w] = w"
| "py_join sep (w # v # ws) = w @ sep @ py_join sep (v # ws)"

text \<open>\<^verbatim>\<open>s.startswith(p)\<close> and \<^verbatim>\<open>sub in s\<close>.\<close>

fun startswith :: "string \<Rightarrow> string \<Rightarrow> bool" where
  "startswith s [] = True"
| "startswith [] (p # ps) = False"
| "startswith (c # cs) (p # ps) = (c = p \<and> startswith cs ps)"

fun py_contains :: "string \<Rightarrow> string \<Rightarrow> bool" where
  "py_contains sub [] = (sub = [])"
| "py_contains sub (c # cs) = (startswith (c # cs) sub \<or> py_contains sub cs)"

text \<open>
  \<^verbatim>\<open>re.sub(r"[class]+", rep, s)\<close>: every maximal run of characters of the class is
  replaced by \<open>rep\<close>.
\<close>

function re_sub_runs :: "(char \<Rightarrow> bool) \<Rightarrow> string \<Rightarrow> string \<Rightarrow> string" where
  "re_sub_runs P rep [] = []"
| "re_sub_runs P rep (c # cs) =
     (if P c then rep @ re_sub_runs P rep (dropWhile P cs) else c # re_sub_runs P rep cs)"
  by pat_completeness auto
termination
  by (relation "measure (\<lambda>(P, rep, s). length s)")
     (auto simp: length_dropWhile_le less_Suc_eq_le)

text \<open>
  \<^verbatim>\<open>re.search\<close> for a pattern of the shape \<^verbatim>\<open>lit([class]{n,})term\<close>, where \<open>term\<close> is
  empty or starts outside the class: the leftmost position where \<open>lit\<close> occurs followed
  by at least \<open>n\<close> characters of the class and then \<open>term\<close>; the group is the whole run.
\<close>

definition re_match_here :: "string \<Rightarrow> (char \<Rightarrow> bool) \<Rightarrow> nat \<Rightarrow> string \<Rightarrow> string \<Rightarrow> string option" where
  "re_match_here lit P n term s =
     (let after = drop (length lit) s; run = takeWhile P after in
      if startswith s lit \<and> n \<le> length run \<and> startswith (dropWhile P after) term
      then Some run else None)"

fun re_search_group :: "string \<Rightarrow> (char \<Rightarrow> bool) \<Rightarrow> nat \<Rightarrow> string \<Rightarrow> string \<Rightarrow> string option" where
  "re_search_group lit P n term [] = re_match_here lit P n term []"
| "re_search_group lit P n term (c # cs) =
     (case re_match_here lit P n term (c # cs) of
        Some g \<Rightarrow> Some g
      | None \<Rightarrow> re_search_group lit P n term cs)"

text \<open>The decimal digits of a natural number, and \<^verbatim>\<open>f"{n:03d}"\<close>.\<close>

definition digit_char :: "nat \<Rightarrow> char" where
  "digit_char d = char_of (48 + d)"

function dec_digits :: "nat \<Rightarrow> string" where
  "dec_digits n = (if n < 10 then [digit_char n] else dec_digits (n div 10) @ [digit_char (n mod 10)])"
  by pat_completeness auto
termination
  by (relation "measure id") auto

declare dec_digits.simps [simp del]

definition zero_pad :: "nat \<Rightarrow> string \<Rightarrow> string" where
  "zero_pad w s = replicate (w - length s) CHR ''0'' @ s"

definition format_03d :: "int \<Rightarrow> string" where
  "format_03d n = (if n < 0 then CHR ''-'' # zero_pad 2 (dec_digits (nat (- n)))
                   else zero_pad 3 (dec_digits (nat n)))"

section \<open>Exceptions\<close>

text \<open>
  An exception is its class and its message, the text of \<^verbatim>\<open>str(e)\<close>; a \<open>KeyError\<close>
  carries the key that was not found. The messages of the interpreter and of the
  standard library are those of CPython 3.11.
\<close>

datatype exn =
    PhotoDownloadError string
  | ValueError string
  | KeyError string
  | TypeError string
  | AttributeError string
  | RuntimeError string
  | FileNotFoundError string
  | OSError string

section \<open>Orientation and participant photos\<close>

datatype Orientation = LANDSCAPE | PORTRAIT

definition from_size :: "int \<Rightarrow> int \<Rightarrow> Orientation" where
  "from_size width height = (if width \<ge> height then LANDSCAPE else PORTRAIT)"

fun orientation_value :: "Orientation \<Rightarrow> string" where
  "orientation_value LANDSCAPE = ''landscape''"
| "orientation_value PORTRAIT = ''portrait''"

record ParticipantPhoto =
  sequence :: int
  submission_index :: int
  participant_name :: string
  theme :: string
  description :: string
  url :: string
  local_path :: "string option"
  orientation :: "Orientation option"

definition slug :: "string \<Rightarrow> string" where
  "slug v = (let v' = py_strip_chars ''- '' (re_sub_runs (\<lambda>c. \<not> is_alnum c) ''-'' (py_strip v))
             in if v' \<noteq> [] then take 60 (py_lower v') else ''item'')"

definition filename_slug :: "ParticipantPhoto \<Rightarrow> string" where
  "filename_slug p =
     format_03d (sequence p) @ ''_'' @ slug (participant_name p) @ ''_'' @ slug (theme p)"

section \<open>Submission repository\<close>

text \<open>
  The spreadsheet is taken as \<^verbatim>\<open>csv.reader\<close> delivers it: a list of rows, each a list of
  cells, the first row being the header. \<open>fs\<close> maps a path to the rows of the file
  there, if it exists. \<^verbatim>\<open>csv.DictReader\<close> skips the rows that are empty lists and
  turns every other row into a dictionary from header to cell, the later of two equal
  headers winning and a missing cell reading as \<^verbatim>\<open>None\<close>.
\<close>

definition REQUIRED_KEYS :: "(string \<times> string) list" where
  "REQUIRED_KEYS =
     [(''full name'', ''participant_name''),
      (''theme name'', ''theme''),
      (''description about your photograph'', ''description''),
      (''submit your view (photo upload)'', ''photo_links'')]"

definition normalize_key :: "string \<Rightarrow> string" where
  "normalize_key v = py_strip (re_sub_runs py_isspace '' '' (py_lower v))"

fun add_headers :: "string list \<Rightarrow> (string \<rightharpoonup> string) \<Rightarrow> (string \<rightharpoonup> string)" where
  "add_headers [] hm = hm"
| "add_headers (raw_header # hs) hm =
     (case map_of REQUIRED_KEYS (normalize_key raw_header) of
        Some alias \<Rightarrow> add_headers hs (hm(alias \<mapsto> raw_header))
      | None \<Rightarrow> add_headers hs hm)"

definition missing_labels :: "(string \<rightharpoonup> string) \<Rightarrow> string list" where
  "missing_labels hm = map fst (filter (\<lambda>(label, alias). hm alias = None) REQUIRED_KEYS)"

definition prepare_header_map :: "string list \<Rightarrow> exn + (string \<rightharpoonup> string)" where
  "prepare_header_map headers =
     (let hm = add_headers headers Map.empty; missing = missing_labels hm in
      if missing \<noteq> []
      then Inl (ValueError (''Missing expected columns in CSV: '' @ py_join '', '' (sort missing)))
      else Inr hm)"

text \<open>
  The dictionary \<^verbatim>\<open>csv.DictReader\<close> makes of a row: \<^verbatim>\<open>dict(zip(fieldnames, row))\<close>, and
  then every header beyond the end of a short row is set to \<^verbatim>\<open>None\<close>, also where an
  equal header earlier in the row had a cell. \<open>None\<close> here is what \<^verbatim>\<open>row.get\<close> returns
  as \<^verbatim>\<open>None\<close>.
\<close>

definition dict_row :: "string list \<Rightarrow> string list \<Rightarrow> (string \<rightharpoonup> string)" where
  "dict_row fieldnames row =
     (\<lambda>header. if header \<in> set (drop (length row) fieldnames) then None
                else map_of (rev (zip fieldnames row)) header)"

definition dict_get :: "(string \<rightharpoonup> 'a) \<Rightarrow> string \<Rightarrow> exn + 'a" where
  "dict_get d k = (case d k of None \<Rightarrow> Inl (KeyError k) | Some v \<Rightarrow> Inr v)"

definition map_row :: "(string \<rightharpoonup> string) \<Rightarrow> (string \<rightharpoonup> string) \<Rightarrow> exn + (string \<rightharpoonup> string) option" where
  "map_row hm row =
     (let mapped = (\<lambda>alias. case hm alias of
                       None \<Rightarrow> None
                     | Some header \<Rightarrow> Some (py_strip (case row header of None \<Rightarrow> [] | Some v \<Rightarrow> v)))
      in case dict_get mapped ''participant_name'' of
           Inl e \<Rightarrow> Inl e
         | Inr name \<Rightarrow>
             if name = [] then Inr None
             else (case dict_get mapped ''theme'' of
                     Inl e \<Rightarrow> Inl e
                   | Inr th \<Rightarrow> if th = [] then Inr None else Inr (Some mapped)))"

definition split_links :: "string \<Rightarrow> string list" where
  "split_links v =
     (if v = [] then []
      else filter (\<lambda>chunk. chunk \<noteq> []) (map py_strip (py_split_on CHR '','' v)))"

text \<open>The inner loop: one photo per link, the sequence number counting on.\<close>

fun add_photos :: "(string \<rightharpoonup> string) \<Rightarrow> int \<Rightarrow> string list \<Rightarrow> ParticipantPhoto list \<times> int
                     \<Rightarrow> exn + (ParticipantPhoto list \<times> int)" where
  "add_photos entry idx [] (photos, seq) = Inr (photos, seq)"
| "add_photos entry idx (link # links) (photos, seq) =
     (case dict_get entry ''participant_name'' of Inl e \<Rightarrow> Inl e | Inr name \<Rightarrow>
      case dict_get entry ''theme'' of Inl e \<Rightarrow> Inl e | Inr th \<Rightarrow>
      case dict_get entry ''description'' of Inl e \<Rightarrow> Inl e | Inr d \<Rightarrow>
        add_photos entry idx links
          (photos @ [\<lparr>sequence = seq, submission_index = idx, participant_name = name,
                       theme = th, description = d, url = link,
                       local_path = None, orientation = None\<rparr>],
           seq + 1))"

text \<open>The outer loop over the rows; \<open>idx\<close> is the counter of \<^verbatim>\<open>enumerate\<close>.\<close>

fun read_rows :: "(string \<rightharpoonup> string) \<Rightarrow> string list \<Rightarrow> string list list \<Rightarrow> int
                    \<Rightarrow> ParticipantPhoto list \<times> int \<Rightarrow> exn + ParticipantPhoto list" where
  "read_rows hm fieldnames [] idx (photos, seq) = Inr photos"
| "read_rows hm fieldnames (row # rows) idx (photos, seq) =
     (if row = [] then read_rows hm fieldnames rows idx (photos, seq)
      else case map_row hm (dict_row fieldnames row) of
             Inl e \<Rightarrow> Inl e
           | Inr None \<Rightarrow> read_rows hm fieldnames rows (idx + 1) (photos, seq)
           | Inr (Some entry) \<Rightarrow>
               (case dict_get entry ''photo_links'' of
                  Inl e \<Rightarrow> Inl e
                | Inr v \<Rightarrow>
                    let links = split_links v in
                    if links = [] then read_rows hm fieldnames rows (idx + 1) (photos, seq)
                    else (case add_photos entry idx links (photos, seq) of
                            Inl e \<Rightarrow> Inl e
                          | Inr st \<Rightarrow> read_rows hm fieldnames rows (idx + 1) st)))"

definition read_submissions :: "(string \<rightharpoonup> string list list) \<Rightarrow> string \<Rightarrow> exn + ParticipantPhoto list" where
  "read_submissions fs csv_path =
     (case fs csv_path of
        None \<Rightarrow> Inl (FileNotFoundError (''CSV file not found: '' @ csv_path))
      | Some table \<Rightarrow>
          let fieldnames = (case table of [] \<Rightarrow> [] | h # _ \<Rightarrow> h) in
          case prepare_header_map fieldnames of
            Inl e \<Rightarrow> Inl e
          | Inr hm \<Rightarrow> read_rows hm fieldnames (tl table) 1 ([], 1))"

text \<open>
  The cell of a row under a required column, trimmed, and the links a row contributes
  as the specification words it: none for an empty row, an empty name or an empty
  theme, else the non-empty trimmed tokens of the links cell.
\<close>

definition row_cell :: "(string \<rightharpoonup> string) \<Rightarrow> string list \<Rightarrow> string list \<Rightarrow> string \<Rightarrow> string" where
  "row_cell hm fieldnames row alias =
     (case hm alias of
        None \<Rightarrow> []
      | Some header \<Rightarrow> py_strip (case dict_row fieldnames row header of None \<Rightarrow> [] | Some v \<Rightarrow> v))"

definition row_links :: "(string \<rightharpoonup> string) \<Rightarrow> string list \<Rightarrow> string list \<Rightarrow> string list" where
  "row_links hm fieldnames row =
     (if row = [] \<or> row_cell hm fieldnames row ''participant_name'' = []
         \<or> row_cell hm fieldnames row ''theme'' = []
      then []
      else filter (\<lambda>t. t \<noteq> [])
             (map py_strip (py_split_on CHR '','' (row_cell hm fieldnames row ''photo_links''))))"

section \<open>Geometry, styles and layouts\<close>

text \<open>
  The fields of \<^verbatim>\<open>Rectangle\<close> carry the prefix \<open>rect_\<close>, and the \<^verbatim>\<open>orientation\<close> and
  \<^verbatim>\<open>description\<close> of a \<^verbatim>\<open>TemplateLayout\<close> the prefix \<open>layout_\<close>, to keep them apart from
  the fields of \<^verbatim>\<open>ParticipantPhoto\<close>.
\<close>

record Rectangle =
  rect_x :: int
  rect_y :: int
  rect_width :: int
  rect_height :: int

record TextStyle =
  font_path :: string
  font_size :: int
  fill :: string
  align :: string
  line_spacing :: int

record TextField =
  rect :: Rectangle
  style :: TextStyle
  prefix :: string
  uppercase :: bool

record TemplateLayout =
  layout_orientation :: Orientation
  template_path :: string
  photo_area :: Rectangle
  clicked_by :: TextField
  title :: TextField
  layout_description :: TextField
  badge :: "TextField option"
  badge_format :: string

section \<open>The world outside the program\<close>

text \<open>
  The network, the file system and the imaging library are a world \<open>'w\<close> that every
  call may change and that may answer any call with an exception. A computation takes
  the world and returns its result or the exception it raises, the events it caused in
  order, and the new world.
\<close>

record request =
  req_url :: string
  req_params :: "(string \<times> string) list"
  req_timeout :: "nat option"

record response =
  ok :: bool
  cookies :: "(string \<times> string) list"
  content_disposition :: "string option"
  chunks :: "string list"

datatype event =
    HttpGet request
  | Mkdir string
  | WriteFile string
  | OpenImage string
  | PastePhoto string
  | SaveImage string
  | Progress string

type_synonym ('w, 'a) io = "'w \<Rightarrow> (exn + 'a) \<times> event list \<times> 'w"

definition io_return :: "'a \<Rightarrow> ('w, 'a) io" where
  "io_return a = (\<lambda>w. (Inr a, [], w))"

definition io_raise :: "exn \<Rightarrow> ('w, 'a) io" where
  "io_raise e = (\<lambda>w. (Inl e, [], w))"

definition io_bind :: "('w, 'a) io \<Rightarrow> ('a \<Rightarrow> ('w, 'b) io) \<Rightarrow> ('w, 'b) io" where
  "io_bind m f = (\<lambda>w. case m w of
      (Inl e, evs, w') \<Rightarrow> (Inl e, evs, w')
    | (Inr a, evs, w') \<Rightarrow> (case f a w' of (r, evs', w'') \<Rightarrow> (r, evs @ evs', w'')))"

text \<open>\<^verbatim>\<open>try: m except ...: handler\<close>; a handler re-raises what its clause does not name.\<close>

definition io_try :: "('w, 'a) io \<Rightarrow> (exn \<Rightarrow> ('w, 'a) io) \<Rightarrow> ('w, 'a) io" where
  "io_try m handler = (\<lambda>w. case m w of
      (Inl e, evs, w') \<Rightarrow> (case handler e w' of (r, evs', w'') \<Rightarrow> (r, evs @ evs', w''))
    | (Inr a, evs, w') \<Rightarrow> (Inr a, evs, w'))"

text \<open>A call into the world, recorded as an event.\<close>

definition io_call :: "event \<Rightarrow> ('w \<Rightarrow> (exn + 'a) \<times> 'w) \<Rightarrow> ('w, 'a) io" where
  "io_call ev op = (\<lambda>w. case op w of (r, w') \<Rightarrow> (r, [ev], w'))"

text \<open>\<^verbatim>\<open>if progress_callback: progress_callback(msg)\<close>.\<close>

definition report :: "bool \<Rightarrow> string \<Rightarrow> ('w, unit) io" where
  "report progress_callback msg = (\<lambda>w. (Inr (), if progress_callback then [Progress msg] else [], w))"

text \<open>
  A font is the key under which \<^verbatim>\<open>FontProvider\<close> caches it. \<open>textsize\<close> is
  \<^verbatim>\<open>draw.textsize(text, font=font)\<close>, \<open>str_upper\<close> is \<^verbatim>\<open>str.upper\<close>, \<open>joinpath\<close> is
  the operator \<^verbatim>\<open>/\<close> of \<^verbatim>\<open>Path\<close>, \<open>path_name\<close> its \<^verbatim>\<open>name\<close>, \<open>format_badge\<close> is
  \<^verbatim>\<open>str.format\<close> with one integer argument.
\<close>

type_synonym font = "string \<times> int"

record 'w env =
  session_get :: "request \<Rightarrow> 'w \<Rightarrow> (exn + response) \<times> 'w"
  mkdir :: "string \<Rightarrow> 'w \<Rightarrow> (exn + unit) \<times> 'w"
  write_file :: "string \<Rightarrow> string list \<Rightarrow> 'w \<Rightarrow> (exn + unit) \<times> 'w"
  path_exists :: "string \<Rightarrow> 'w \<Rightarrow> bool"
  open_image :: "string \<Rightarrow> 'w \<Rightarrow> (exn + int \<times> int) \<times> 'w"
  fit_and_paste :: "string \<Rightarrow> Rectangle \<Rightarrow> 'w \<Rightarrow> (exn + unit) \<times> 'w"
  save_image :: "string \<Rightarrow> 'w \<Rightarrow> (exn + unit) \<times> 'w"
  textsize :: "font \<Rightarrow> string \<Rightarrow> int \<times> int"
  str_upper :: "string \<Rightarrow> string"
  format_badge :: "string \<Rightarrow> int \<Rightarrow> exn + string"
  joinpath :: "string \<Rightarrow> string \<Rightarrow> string"
  path_name :: "string \<Rightarrow> string"

section \<open>Photo download service\<close>

definition DRIVE_HOST :: string where
  "DRIVE_HOST = ''drive.google.com''"

definition resolve_filename :: "string \<Rightarrow> string option \<Rightarrow> string" where
  "resolve_filename base cd_header =
     (let from_header =
        (case cd_header of
           None \<Rightarrow> None
         | Some cd \<Rightarrow>
             if cd = [] then None
             else (case re_search_group (''filename*=UTF-8'' @ [CHR 0x27, CHR 0x27])
                          (\<lambda>c. c \<noteq> CHR '';'') 1 [] cd of
                     Some g \<Rightarrow> Some g
                   | None \<Rightarrow> re_search_group (''filename='' @ [CHR 0x22])
                               (\<lambda>c. c \<noteq> CHR 0x22) 1 [CHR 0x22] cd))
      in case from_header of
           Some name \<Rightarrow> name
         | None \<Rightarrow> (let stem = filter is_id_char base
                     in (if stem \<noteq> [] then stem else ''download'') @ ''.jpg''))"

definition extract_drive_id :: "string \<Rightarrow> string option" where
  "extract_drive_id u =
     (case re_search_group ''id='' is_id_char 10 [] u of
        Some g \<Rightarrow> Some g
      | None \<Rightarrow>
          (case re_search_group ''/d/'' is_id_char 10 [] u of
             Some g \<Rightarrow> Some g
           | None \<Rightarrow> re_search_group ''file/d/'' is_id_char 10 [] u))"

definition drive_confirm_token :: "response \<Rightarrow> string option" where
  "drive_confirm_token resp =
     map_option snd (find (\<lambda>(key, v). startswith key ''download_warning'') (cookies resp))"

definition save_response :: "'w env \<Rightarrow> string \<Rightarrow> response \<Rightarrow> string \<Rightarrow> ('w, string) io" where
  "save_response env base resp output_dir =
     (let filename = resolve_filename base (content_disposition resp);
          target = joinpath env output_dir filename
      in io_bind (io_call (WriteFile target) (write_file env target (chunks resp)))
           (\<lambda>_. io_return target))"

definition download_generic :: "'w env \<Rightarrow> string \<Rightarrow> string \<Rightarrow> ('w, string) io" where
  "download_generic env u output_dir =
     (let req = \<lparr>req_url = u, req_params = [], req_timeout = Some 60\<rparr> in
      io_bind (io_call (HttpGet req) (session_get env req)) (\<lambda>resp.
        if \<not> ok resp then io_raise (PhotoDownloadError (''Unable to download image: '' @ u))
        else save_response env u resp output_dir))"

definition drive_request :: "(string \<times> string) list \<Rightarrow> request" where
  "drive_request ps =
     \<lparr>req_url = ''https://drive.google.com/uc?export=download'', req_params = ps,
      req_timeout = None\<rparr>"

definition download_from_drive :: "'w env \<Rightarrow> string \<Rightarrow> string \<Rightarrow> ('w, string) io" where
  "download_from_drive env u output_dir =
     (case extract_drive_id u of
        None \<Rightarrow> io_raise (PhotoDownloadError (''Unable to parse Google Drive id: '' @ u))
      | Some file_id \<Rightarrow>
          if file_id = [] then io_raise (PhotoDownloadError (''Unable to parse Google Drive id: '' @ u))
          else
            let req1 = drive_request [(''id'', file_id)] in
            io_bind (io_call (HttpGet req1) (session_get env req1)) (\<lambda>resp1.
            io_bind
              (case drive_confirm_token resp1 of
                 None \<Rightarrow> io_return resp1
               | Some token \<Rightarrow>
                   if token = [] then io_return resp1
                   else (let req2 = drive_request [(''id'', file_id), (''confirm'', token)]
                         in io_call (HttpGet req2) (session_get env req2)))
              (\<lambda>resp.
                if \<not> ok resp
                then io_raise (PhotoDownloadError (''Drive download failed for id '' @ file_id))
                else save_response env file_id resp output_dir)))"

definition download :: "'w env \<Rightarrow> string \<Rightarrow> string \<Rightarrow> ('w, string) io" where
  "download env u output_dir =
     (if u = [] then io_raise (PhotoDownloadError ''Empty URL provided'')
      else io_bind (io_call (Mkdir output_dir) (mkdir env output_dir)) (\<lambda>_.
             if py_contains DRIVE_HOST u then download_from_drive env u output_dir
             else download_generic env u output_dir))"

section \<open>Orientation detector\<close>

definition detect :: "'w env \<Rightarrow> string \<Rightarrow> ('w, Orientation) io" where
  "detect env image_path =
     io_bind (io_call (OpenImage image_path) (open_image env image_path))
       (\<lambda>(width, height). io_return (from_size width height))"

section \<open>Template renderer\<close>

definition font_get :: "TextStyle \<Rightarrow> font" where
  "font_get st = (if font_path st \<noteq> [] then font_path st else ''default'', font_size st)"

text \<open>The greedy loop of \<^verbatim>\<open>_wrap_text\<close> over the words.\<close>

fun wrap_loop :: "(font \<Rightarrow> string \<Rightarrow> int \<times> int) \<Rightarrow> font \<Rightarrow> int \<Rightarrow> string list
                    \<Rightarrow> string list \<Rightarrow> string list \<Rightarrow> string list" where
  "wrap_loop ts fnt max_width [] lines current =
     (if current \<noteq> [] then lines @ [py_join '' '' current] else lines)"
| "wrap_loop ts fnt max_width (word # words) lines current =
     (let candidate = (if current \<noteq> [] then py_join '' '' (current @ [word]) else word);
          width = fst (ts fnt candidate)
      in if width \<le> max_width \<or> current = []
         then wrap_loop ts fnt max_width words lines (current @ [word])
         else wrap_loop ts fnt max_width words (lines @ [py_join '' '' current]) [word])"

definition wrap_text :: "(font \<Rightarrow> string \<Rightarrow> int \<times> int) \<Rightarrow> string \<Rightarrow> font \<Rightarrow> int \<Rightarrow> string list" where
  "wrap_text ts text fnt max_width =
     (if text = [] then []
      else let words = py_split text in
           if words = [] then [] else wrap_loop ts fnt max_width words [] [])"

text \<open>One call of \<^verbatim>\<open>draw.text\<close>: the position, the line, the font and the fill colour.\<close>

record draw_call =
  at_x :: int
  at_y :: int
  line_text :: string
  line_font :: font
  line_fill :: string

text \<open>
  The drawing loop of \<^verbatim>\<open>_draw_text\<close>, \<open>cursor\<close> being its variable \<^verbatim>\<open>y\<close>: the line is
  drawn, the cursor advances, and the loop breaks once the cursor is below the
  rectangle.
\<close>

fun draw_lines :: "(font \<Rightarrow> string \<Rightarrow> int \<times> int) \<Rightarrow> TextField \<Rightarrow> font \<Rightarrow> int \<Rightarrow> string list
                     \<Rightarrow> draw_call list" where
  "draw_lines ts field fnt cursor [] = []"
| "draw_lines ts field fnt cursor (line # lines) =
     (let line_width = fst (ts fnt line);
          line_height = snd (ts fnt line);
          x_position =
            (if align (style field) = ''center''
             then rect_x (rect field) + max ((rect_width (rect field) - line_width) div 2) 0
             else if align (style field) = ''right''
             then rect_x (rect field) + max (rect_width (rect field) - line_width) 0
             else rect_x (rect field));
          call = \<lparr>at_x = x_position, at_y = cursor, line_text = line, line_font = fnt,
                  line_fill = fill (style field)\<rparr>;
          cursor' = cursor + (line_height + line_spacing (style field))
      in if cursor' > rect_y (rect field) + rect_height (rect field)
         then [call]
         else call # draw_lines ts field fnt cursor' lines)"

definition field_lines :: "'w env \<Rightarrow> TextField \<Rightarrow> string \<Rightarrow> string list" where
  "field_lines env field text =
     (let content = py_strip (prefix field @ text);
          content' = (if uppercase field then str_upper env content else content)
      in wrap_text (textsize env) content' (font_get (style field)) (rect_width (rect field)))"

definition draw_text :: "'w env \<Rightarrow> TextField \<Rightarrow> string \<Rightarrow> draw_call list" where
  "draw_text env field text =
     draw_lines (textsize env) field (font_get (style field)) (rect_y (rect field))
       (field_lines env field text)"

definition ensure_template_exists :: "'w env \<Rightarrow> TemplateLayout \<Rightarrow> ('w, unit) io" where
  "ensure_template_exists env layout =
     (if template_path layout = [] then io_raise (ValueError ''Template path is not set'')
      else (\<lambda>w. if \<not> path_exists env (template_path layout) w
                 then io_raise (FileNotFoundError (''Template not found: '' @ template_path layout)) w
                 else io_return () w))"

definition paste_photo :: "'w env \<Rightarrow> Rectangle \<Rightarrow> string option \<Rightarrow> ('w, unit) io" where
  "paste_photo env area source_path =
     (case source_path of
        None \<Rightarrow> io_raise (TypeError ''expected str, bytes or os.PathLike object, not NoneType'')
      | Some p \<Rightarrow> io_call (PastePhoto p) (fit_and_paste env p area))"

text \<open>The composed image: the template it started from and the text drawn on it.\<close>

record image =
  image_template :: string
  image_area :: Rectangle
  image_text :: "draw_call list"

definition render :: "'w env \<Rightarrow> TemplateLayout \<Rightarrow> ParticipantPhoto \<Rightarrow> ('w, image) io" where
  "render env layout photo =
     io_bind (ensure_template_exists env layout) (\<lambda>_.
     io_bind (io_call (OpenImage (template_path layout)) (open_image env (template_path layout))) (\<lambda>_.
     io_bind (paste_photo env (photo_area layout) (local_path photo)) (\<lambda>_.
       let texts = draw_text env (clicked_by layout) (participant_name photo)
                 @ draw_text env (title layout) (theme photo)
                 @ draw_text env (layout_description layout) (description photo)
       in case badge layout of
            None \<Rightarrow> io_return \<lparr>image_template = template_path layout,
                                 image_area = photo_area layout, image_text = texts\<rparr>
          | Some b \<Rightarrow>
              if badge_format layout = []
              then io_return \<lparr>image_template = template_path layout,
                              image_area = photo_area layout, image_text = texts\<rparr>
              else (case format_badge env (badge_format layout) (sequence photo) of
                      Inl e \<Rightarrow> io_raise e
                    | Inr badge_text \<Rightarrow>
                        io_return \<lparr>image_template = template_path layout,
                                   image_area = photo_area layout,
                                   image_text = texts @ draw_text env b badge_text\<rparr>))))"

section \<open>Template manager\<close>

definition get_layout :: "(Orientation \<rightharpoonup> TemplateLayout) \<Rightarrow> Orientation \<Rightarrow> ('w, TemplateLayout) io" where
  "get_layout layouts ori =
     (case layouts ori of
        None \<Rightarrow> io_raise (ValueError (''No template configured for '' @ orientation_value ori))
      | Some layout \<Rightarrow> io_return layout)"

section \<open>Generation orchestrator\<close>

definition py_str :: "int \<Rightarrow> string" where
  "py_str n = (if n < 0 then CHR ''-'' # dec_digits (nat (- n)) else dec_digits (nat n))"

text \<open>
  The body of the loop of \<^verbatim>\<open>generate\<close> for one photo: the output path it appended to
  the results, or \<open>None\<close> where it went on to the next photo. Only
  \<^verbatim>\<open>PhotoDownloadError\<close> around the download and \<^verbatim>\<open>ValueError\<close> around the layout
  lookup are caught.
\<close>

definition process_photo :: "'w env \<Rightarrow> (Orientation \<rightharpoonup> TemplateLayout) \<Rightarrow> string \<Rightarrow> string \<Rightarrow> bool
                               \<Rightarrow> int \<Rightarrow> ParticipantPhoto \<Rightarrow> ('w, string option) io" where
  "process_photo env layouts output_dir cache_dir cb index photo =
     io_bind (report cb (''Downloading ('' @ py_str index @ ''): '' @ url photo)) (\<lambda>_.
     io_bind
       (io_try (io_bind (download env (url photo) cache_dir) (\<lambda>p. io_return (Some p)))
          (\<lambda>err. case err of
             PhotoDownloadError msg \<Rightarrow>
               io_bind (report cb (''Download failed: '' @ msg)) (\<lambda>_. io_return None)
           | _ \<Rightarrow> io_raise err))
       (\<lambda>downloaded. case downloaded of
          None \<Rightarrow> io_return None
        | Some local \<Rightarrow>
            io_bind (detect env local) (\<lambda>ori.
            let photo' = photo\<lparr>local_path := Some local, orientation := Some ori\<rparr> in
            io_bind
              (io_try (io_bind (get_layout layouts ori) (\<lambda>l. io_return (Some l)))
                 (\<lambda>err. case err of
                    ValueError msg \<Rightarrow> io_bind (report cb msg) (\<lambda>_. io_return None)
                  | _ \<Rightarrow> io_raise err))
              (\<lambda>found. case found of
                 None \<Rightarrow> io_return None
               | Some layout \<Rightarrow>
                   io_bind (report cb (''Rendering ('' @ py_str index @ '') using ''
                                        @ orientation_value ori @ '' template'')) (\<lambda>_.
                   io_bind (render env layout photo') (\<lambda>composed.
                   let filename = filename_slug photo' @ ''.png'';
                       output_path = joinpath env output_dir filename in
                   io_bind (io_call (SaveImage output_path) (save_image env output_path)) (\<lambda>_.
                   io_bind (report cb (''Saved '' @ path_name env output_path)) (\<lambda>_.
                   io_return (Some output_path)))))))))"

fun generate_loop :: "'w env \<Rightarrow> (Orientation \<rightharpoonup> TemplateLayout) \<Rightarrow> string \<Rightarrow> string \<Rightarrow> bool
                        \<Rightarrow> int \<Rightarrow> ParticipantPhoto list \<Rightarrow> string list \<Rightarrow> ('w, string list) io" where
  "generate_loop env layouts output_dir cache_dir cb index [] results = io_return results"
| "generate_loop env layouts output_dir cache_dir cb index (photo # photos) results =
     io_bind (process_photo env layouts output_dir cache_dir cb index photo) (\<lambda>r.
       generate_loop env layouts output_dir cache_dir cb (index + 1) photos
         (case r of None \<Rightarrow> results | Some output_path \<Rightarrow> results @ [output_path]))"

definition generate :: "'w env \<Rightarrow> (Orientation \<rightharpoonup> TemplateLayout) \<Rightarrow> ParticipantPhoto list \<Rightarrow> string
                          \<Rightarrow> string \<Rightarrow> bool \<Rightarrow> ('w, string list) io" where
  "generate env layouts photos output_dir cache_dir cb =
     io_bind (io_call (Mkdir output_dir) (mkdir env output_dir)) (\<lambda>_.
     io_bind (io_call (Mkdir cache_dir) (mkdir env cache_dir)) (\<lambda>_.
       generate_loop env layouts output_dir cache_dir cb 1 photos []))"

section \<open>Layouts as dictionaries\<close>

text \<open>
  The values a template configuration is made of: what \<^verbatim>\<open>to_dict\<close> builds and
  \<^verbatim>\<open>json.load\<close> delivers, numbers being integers. A dictionary keeps its items in
  insertion order. Where a dataclass field is declared \<^verbatim>\<open>str\<close>, a value that is not a
  string lies outside the record type; \<^verbatim>\<open>from_dict\<close> answers it with \<open>TypeError\<close>
  here.
\<close>

datatype jval =
    JNone
  | JBool bool
  | JInt int
  | JStr string
  | JList "jval list"
  | JDict "(string \<times> jval) list"

text \<open>The name of the type of a value, and \<^verbatim>\<open>repr\<close> of a value.\<close>

fun type_name :: "jval \<Rightarrow> string" where
  "type_name JNone = ''NoneType''"
| "type_name (JBool b) = ''bool''"
| "type_name (JInt n) = ''int''"
| "type_name (JStr s) = ''str''"
| "type_name (JList vs) = ''list''"
| "type_name (JDict items) = ''dict''"

definition quoted :: "string \<Rightarrow> string" where
  "quoted s = [CHR 0x27] @ s @ [CHR 0x27]"

definition hex_digit :: "nat \<Rightarrow> char" where
  "hex_digit n = ''0123456789abcdef'' ! (n mod 16)"

definition repr_printable :: "char \<Rightarrow> bool" where
  "repr_printable c =
     (let n = (of_char c :: nat) in (32 \<le> n \<and> n < 127) \<or> (161 \<le> n \<and> n \<noteq> 173))"

definition repr_char :: "char \<Rightarrow> char \<Rightarrow> string" where
  "repr_char q c =
     (if c = q \<or> c = CHR 0x5C then [CHR 0x5C, c]
      else if c = CHR 0x09 then [CHR 0x5C, CHR ''t'']
      else if c = CHR 0x0A then [CHR 0x5C, CHR ''n'']
      else if c = CHR 0x0D then [CHR 0x5C, CHR ''r'']
      else if \<not> repr_printable c
      then [CHR 0x5C, CHR ''x'', hex_digit (of_char c div 16), hex_digit (of_char c)]
      else [c])"

definition py_repr_str :: "string \<Rightarrow> string" where
  "py_repr_str s =
     (let q = (if CHR 0x27 \<in> set s \<and> CHR 0x22 \<notin> set s then CHR 0x22 else CHR 0x27)
      in q # concat (map (repr_char q) s) @ [q])"

fun py_repr :: "jval \<Rightarrow> string"
  and repr_list :: "jval list \<Rightarrow> string list"
  and repr_items :: "(string \<times> jval) list \<Rightarrow> string list" where
  "py_repr JNone = ''None''"
| "py_repr (JBool b) = (if b then ''True'' else ''False'')"
| "py_repr (JInt n) = py_str n"
| "py_repr (JStr s) = py_repr_str s"
| "py_repr (JList vs) = ''['' @ py_join '', '' (repr_list vs) @ '']''"
| "py_repr (JDict items) = ''{'' @ py_join '', '' (repr_items items) @ ''}''"
| "repr_list [] = []"
| "repr_list (v # vs) = py_repr v # repr_list vs"
| "repr_items [] = []"
| "repr_items ((k, v) # kvs) = (py_repr_str k @ '': '' @ py_repr v) # repr_items kvs"

text \<open>
  \<^verbatim>\<open>data[key]\<close> and \<^verbatim>\<open>data.get(key, default)\<close> for a key that is a string. The items
  of a dictionary have distinct keys.
\<close>

definition subscript :: "jval \<Rightarrow> string \<Rightarrow> exn + jval" where
  "subscript data k =
     (case data of
        JDict items \<Rightarrow> (case map_of items k of None \<Rightarrow> Inl (KeyError k) | Some v \<Rightarrow> Inr v)
      | JStr s \<Rightarrow> Inl (TypeError (''string indices must be integers, not '' @ quoted ''str''))
      | JList vs \<Rightarrow> Inl (TypeError ''list indices must be integers or slices, not str'')
      | _ \<Rightarrow> Inl (TypeError (quoted (type_name data) @ '' object is not subscriptable'')))"

definition get_or :: "jval \<Rightarrow> string \<Rightarrow> jval \<Rightarrow> exn + jval" where
  "get_or data k dflt =
     (case data of
        JDict items \<Rightarrow> (case map_of items k of None \<Rightarrow> Inr dflt | Some v \<Rightarrow> Inr v)
      | _ \<Rightarrow> Inl (AttributeError (quoted (type_name data) @ '' object has no attribute ''
                                   @ quoted ''get'')))"

text \<open>
  The truth value of a value, \<^verbatim>\<open>int(v)\<close> and a string field. \<^verbatim>\<open>int\<close> of a string
  trims the whitespace of ASCII and the two whitespace characters above it, and not the
  separators U+001C to U+001F.
\<close>

fun py_bool :: "jval \<Rightarrow> bool" where
  "py_bool JNone = False"
| "py_bool (JBool b) = b"
| "py_bool (JInt n) = (n \<noteq> 0)"
| "py_bool (JStr s) = (s \<noteq> [])"
| "py_bool (JList vs) = (vs \<noteq> [])"
| "py_bool (JDict items) = (items \<noteq> [])"

definition is_digit :: "char \<Rightarrow> bool" where
  "is_digit c = (CHR ''0'' \<le> c \<and> c \<le> CHR ''9'')"

definition int_space :: "char \<Rightarrow> bool" where
  "int_space c = (c \<in> set [CHR 0x09, CHR 0x0A, CHR 0x0B, CHR 0x0C, CHR 0x0D, CHR 0x20,
                             CHR 0x85, CHR 0xA0])"

fun digits_value :: "nat \<Rightarrow> string \<Rightarrow> nat" where
  "digits_value acc [] = acc"
| "digits_value acc (c # cs) =
     (if c = CHR ''_'' then digits_value acc cs
      else digits_value (10 * acc + (of_char c - 48)) cs)"

fun well_grouped :: "string \<Rightarrow> bool" where
  "well_grouped [] = False"
| "well_grouped [c] = is_digit c"
| "well_grouped (c # d # cs) =
     (is_digit c \<and> (if d = CHR ''_'' then well_grouped cs else well_grouped (d # cs)))"

definition parse_int :: "string \<Rightarrow> int option" where
  "parse_int s =
     (let t = strip_with int_space s;
          neg = (t \<noteq> [] \<and> hd t = CHR ''-'');
          body = (if t \<noteq> [] \<and> (hd t = CHR ''-'' \<or> hd t = CHR ''+'') then tl t else t)
      in if well_grouped body
         then Some (if neg then - int (digits_value 0 body) else int (digits_value 0 body))
         else None)"

fun py_int :: "jval \<Rightarrow> exn + int" where
  "py_int (JInt n) = Inr n"
| "py_int (JBool b) = Inr (if b then 1 else 0)"
| "py_int (JStr s) =
     (case parse_int s of
        None \<Rightarrow> Inl (ValueError (''invalid literal for int() with base 10: '' @ py_repr_str s))
      | Some n \<Rightarrow> Inr n)"
| "py_int v =
     Inl (TypeError (''int() argument must be a string, a bytes-like object or a real number, not ''
                     @ quoted (type_name v)))"

fun as_str :: "jval \<Rightarrow> exn + string" where
  "as_str (JStr s) = Inr s"
| "as_str v = Inl (TypeError ''not a string'')"

definition bind :: "exn + 'a \<Rightarrow> ('a \<Rightarrow> exn + 'b) \<Rightarrow> exn + 'b" where
  "bind m f = (case m of Inl e \<Rightarrow> Inl e | Inr a \<Rightarrow> f a)"

definition Rectangle_to_dict :: "Rectangle \<Rightarrow> jval" where
  "Rectangle_to_dict r =
     JDict [(''x'', JInt (rect_x r)), (''y'', JInt (rect_y r)),
            (''width'', JInt (rect_width r)), (''height'', JInt (rect_height r))]"

definition Rectangle_from_dict :: "jval \<Rightarrow> exn + Rectangle" where
  "Rectangle_from_dict data =
     bind (bind (subscript data ''x'') py_int) (\<lambda>vx.
     bind (bind (subscript data ''y'') py_int) (\<lambda>vy.
     bind (bind (subscript data ''width'') py_int) (\<lambda>vw.
     bind (bind (subscript data ''height'') py_int) (\<lambda>vh.
       Inr \<lparr>rect_x = vx, rect_y = vy, rect_width = vw, rect_height = vh\<rparr>))))"

definition TextStyle_to_dict :: "TextStyle \<Rightarrow> jval" where
  "TextStyle_to_dict st =
     JDict [(''font_path'', JStr (font_path st)), (''font_size'', JInt (font_size st)),
            (''fill'', JStr (fill st)), (''align'', JStr (align st)),
            (''line_spacing'', JInt (line_spacing st))]"

definition TextStyle_from_dict :: "jval \<Rightarrow> exn + TextStyle" where
  "TextStyle_from_dict data =
     bind (bind (get_or data ''font_path'' (JStr [])) as_str) (\<lambda>fp.
     bind (bind (get_or data ''font_size'' (JInt 42)) py_int) (\<lambda>fs.
     bind (bind (get_or data ''fill'' (JStr ''#000000'')) as_str) (\<lambda>fl.
     bind (bind (get_or data ''align'' (JStr ''left'')) as_str) (\<lambda>al.
     bind (bind (get_or data ''line_spacing'' (JInt 6)) py_int) (\<lambda>ls.
       Inr \<lparr>font_path = fp, font_size = fs, fill = fl, align = al, line_spacing = ls\<rparr>)))))"

definition TextField_to_dict :: "TextField \<Rightarrow> jval" where
  "TextField_to_dict f =
     JDict [(''rect'', Rectangle_to_dict (rect f)), (''style'', TextStyle_to_dict (style f)),
            (''prefix'', JStr (prefix f)), (''uppercase'', JBool (uppercase f))]"

definition TextField_from_dict :: "jval \<Rightarrow> exn + TextField" where
  "TextField_from_dict data =
     bind (bind (subscript data ''rect'') Rectangle_from_dict) (\<lambda>r.
     bind (bind (get_or data ''style'' (JDict [])) TextStyle_from_dict) (\<lambda>st.
     bind (bind (get_or data ''prefix'' (JStr [])) as_str) (\<lambda>p.
     bind (get_or data ''uppercase'' (JBool False)) (\<lambda>u.
       Inr \<lparr>rect = r, style = st, prefix = p, uppercase = py_bool u\<rparr>))))"

definition Orientation_of_value :: "jval \<Rightarrow> exn + Orientation" where
  "Orientation_of_value v =
     (if v = JStr ''landscape'' then Inr LANDSCAPE
      else if v = JStr ''portrait'' then Inr PORTRAIT
      else Inl (ValueError (py_repr v @ '' is not a valid Orientation'')))"

text \<open>
  \<^verbatim>\<open>_resource_path\<close>: \<open>resolve\<close> is \<^verbatim>\<open>str(Path(value).expanduser().resolve())\<close>, the
  absolute form of a path in the file system at hand, or the exception it raises: a
  \<open>RuntimeError\<close> where the home directory of \<^verbatim>\<open>~name\<close> is not known, a \<open>ValueError\<close>
  for a path with a null character. A value that is not a string and counts as true
  makes \<^verbatim>\<open>Path\<close> raise a \<open>TypeError\<close>.
\<close>

definition resource_path :: "(string \<Rightarrow> exn + string) \<Rightarrow> string \<Rightarrow> exn + string" where
  "resource_path resolve v = (if v \<noteq> [] then resolve v else Inr v)"

definition resource_path_value :: "(string \<Rightarrow> exn + string) \<Rightarrow> jval \<Rightarrow> exn + string" where
  "resource_path_value resolve v =
     (case v of
        JStr s \<Rightarrow> resource_path resolve s
      | _ \<Rightarrow> if py_bool v
             then Inl (TypeError (''expected str, bytes or os.PathLike object, not '' @ type_name v))
             else as_str v)"

definition to_dict :: "TemplateLayout \<Rightarrow> jval" where
  "to_dict layout =
     JDict [(''orientation'', JStr (orientation_value (layout_orientation layout))),
            (''template_path'', JStr (template_path layout)),
            (''photo_area'', Rectangle_to_dict (photo_area layout)),
            (''clicked_by'', TextField_to_dict (clicked_by layout)),
            (''title'', TextField_to_dict (title layout)),
            (''description'', TextField_to_dict (layout_description layout)),
            (''badge'', (case badge layout of None \<Rightarrow> JNone | Some b \<Rightarrow> TextField_to_dict b)),
            (''badge_format'', JStr (badge_format layout))]"

definition from_dict :: "(string \<Rightarrow> exn + string) \<Rightarrow> jval \<Rightarrow> exn + TemplateLayout" where
  "from_dict resolve data =
     bind (get_or data ''badge'' JNone) (\<lambda>badge_value.
     bind (bind (subscript data ''orientation'') Orientation_of_value) (\<lambda>ori.
     bind (bind (subscript data ''template_path'') (resource_path_value resolve)) (\<lambda>tp.
     bind (bind (subscript data ''photo_area'') Rectangle_from_dict) (\<lambda>area.
     bind (bind (subscript data ''clicked_by'') TextField_from_dict) (\<lambda>cb.
     bind (bind (subscript data ''title'') TextField_from_dict) (\<lambda>ti.
     bind (bind (subscript data ''description'') TextField_from_dict) (\<lambda>de.
     bind (if py_bool badge_value then bind (TextField_from_dict badge_value) (\<lambda>b. Inr (Some b))
           else Inr None) (\<lambda>bd.
     bind (bind (get_or data ''badge_format'' (JStr ''{0:02d}'')) as_str) (\<lambda>bf.
       Inr \<lparr>layout_orientation = ori, template_path = tp,
            photo_area = area, clicked_by = cb, title = ti, layout_description = de,
            badge = bd, badge_format = bf\<rparr>)))))))))"

text \<open>
  A file system with the single user \<^verbatim>\<open>user\<close>, whose home and working directory is
  \<^verbatim>\<open>/home/user\<close>, and with no symbolic links, for paths that have no component \<^verbatim>\<open>.\<close> or
  \<^verbatim>\<open>..\<close> and no doubled or trailing slash: \<^verbatim>\<open>~\<close> and \<^verbatim>\<open>~user\<close> at the start become the
  home directory, any other \<^verbatim>\<open>~name\<close> raises, a path with a null character raises, an
  absolute path resolves to itself and any other path is taken from the working
  directory.
\<close>

definition resolve_in_home :: "string \<Rightarrow> exn + string" where
  "resolve_in_home p =
     (if startswith p ''~''
      then (let name = takeWhile (\<lambda>c. c \<noteq> CHR ''/'') (tl p);
                rest = dropWhile (\<lambda>c. c \<noteq> CHR ''/'') (tl p)
            in if CHR 0x00 \<in> set name then Inl (ValueError ''embedded null byte'')
               else if name \<noteq> [] \<and> name \<noteq> ''user''
               then Inl (RuntimeError ''Could not determine home directory.'')
               else if CHR 0x00 \<in> set rest then Inl (ValueError ''embedded null byte'')
               else Inr (''/home/user'' @ rest))
      else if CHR 0x00 \<in> set p then Inl (ValueError ''embedded null byte'')
      else if startswith p ''/'' then Inr p
      else Inr (''/home/user/'' @ p))"

section \<open>Predicates of the properties\<close>



definition slug_core :: "string \<Rightarrow> string" where
  "slug_core v = py_strip_chars ''- '' (re_sub_runs (\<lambda>c. \<not> is_alnum c) ''-'' (py_strip v))"


section \<open>A concrete world\<close>

text \<open>
  A world for running the program on examples: it counts the requests made. A request
  with no parameters or with the confirm token \<open>t0k\<close> is answered with the file, any
  other with a failure status and a cookie asking for that token. An image opens unless
  its path contains \<open>broken\<close>. A second world answers every request with the file and
  a warning cookie of empty value.
\<close>

definition demo_response :: "request \<Rightarrow> response" where
  "demo_response req =
     (if req_params req = [] \<or> map_of (req_params req) ''confirm'' = Some ''t0k''
      then \<lparr>ok = True, cookies = [], content_disposition = None, chunks = [''data'']\<rparr>
      else \<lparr>ok = False, cookies = [(''NID'', ''1''), (''download_warning_123'', ''t0k'')],
            content_disposition = None, chunks = []\<rparr>)"

definition demo_env :: "nat env" where
  "demo_env =
     \<lparr>session_get = (\<lambda>req w. (Inr (demo_response req), Suc w)),
      mkdir = (\<lambda>p w. (Inr (), w)),
      write_file = (\<lambda>p cs w. (Inr (), w)),
      path_exists = (\<lambda>p w. True),
      open_image = (\<lambda>p w. if py_contains ''broken'' p
                            then (Inl (OSError ''cannot identify image file''), w)
                            else (Inr (640, 480), w)),
      fit_and_paste = (\<lambda>p area w. (Inr (), w)),
      save_image = (\<lambda>p w. (Inr (), w)),
      textsize = (\<lambda>fnt s. (10 * int (length s), 12)),
      str_upper = (\<lambda>s. s),
      format_badge = (\<lambda>fmt n. Inr (py_str n)),
      joinpath = (\<lambda>d n. d @ ''/'' @ n),
      path_name = (\<lambda>p. rev (takeWhile (\<lambda>c. c \<noteq> CHR ''/'') (rev p)))\<rparr>"

definition empty_token_env :: "nat env" where
  "empty_token_env =
     demo_env\<lparr>session_get := (\<lambda>req w.
        (Inr \<lparr>ok = True, cookies = [(''download_warning_123'', [])],
              content_disposition = None, chunks = [''data'']\<rparr>, Suc w))\<rparr>"

definition drive_url :: string where
  "drive_url = ''https://drive.google.com/file/d/1AbCdEfGhIjKlMn/view''"

text \<open>A layout registered for landscape images only, and photos to run through it.\<close>

definition demo_field :: TextField where
  "demo_field = \<lparr>rect = \<lparr>rect_x = 5, rect_y = 100, rect_width = 90, rect_height = 30\<rparr>,
                  style = \<lparr>font_path = [], font_size = 42, fill = ''#000000'', align = ''center'',
                           line_spacing = 6\<rparr>,
                  prefix = ''By '', uppercase = False\<rparr>"

definition demo_layout :: TemplateLayout where
  "demo_layout = \<lparr>layout_orientation = LANDSCAPE, template_path = ''template.png'',
                   photo_area = \<lparr>rect_x = 0, rect_y = 0, rect_width = 100, rect_height = 100\<rparr>,
                   clicked_by = demo_field, title = demo_field, layout_description = demo_field,
                   badge = None, badge_format = ''{0:02d}''\<rparr>"

definition demo_layouts :: "Orientation \<rightharpoonup> TemplateLayout" where
  "demo_layouts = [LANDSCAPE \<mapsto> demo_layout]"

definition photo_at :: "int \<Rightarrow> string \<Rightarrow> ParticipantPhoto" where
  "photo_at n u = \<lparr>sequence = n, submission_index = n, participant_name = ''Ann'', theme = ''Sea'',
                    description = ''calm'', url = u, local_path = None, orientation = None\<rparr>"



text \<open>
  A word has a character and no whitespace. A group of words makes a wrapped line when
  it is a single word or its joined text fits the width. The cursor of the drawing loop
  before line \<open>i\<close> is the top of the rectangle plus the heights and spacings of the
  lines before it; the bottom edge is the top plus the height of the rectangle.
\<close>

definition is_word :: "string \<Rightarrow> bool" where
  "is_word w = (w \<noteq> [] \<and> (\<forall>c \<in> set w. \<not> py_isspace c))"

definition wrapped_line :: "(font \<Rightarrow> string \<Rightarrow> int \<times> int) \<Rightarrow> font \<Rightarrow> int \<Rightarrow> string list \<Rightarrow> bool" where
  "wrapped_line ts fnt max_width g =
     (g \<noteq> [] \<and> (\<forall>w \<in> set g. is_word w)
      \<and> (length g = 1 \<or> fst (ts fnt (py_join '' '' g)) \<le> max_width))"

definition demo_text :: string where
  "demo_text = ''the quick  brown fox extraordinarily ok''"

definition line_advance :: "(font \<Rightarrow> string \<Rightarrow> int \<times> int) \<Rightarrow> TextField \<Rightarrow> font \<Rightarrow> string \<Rightarrow> int" where
  "line_advance ts field fnt line = snd (ts fnt line) + line_spacing (style field)"

definition cursor_at :: "(font \<Rightarrow> string \<Rightarrow> int \<times> int) \<Rightarrow> TextField \<Rightarrow> font \<Rightarrow> int \<Rightarrow> string list \<Rightarrow> nat \<Rightarrow> int" where
  "cursor_at ts field fnt y0 lines i = y0 + sum_list (map (line_advance ts field fnt) (take i lines))"

definition field_bottom :: "TextField \<Rightarrow> int" where
  "field_bottom field = rect_y (rect field) + rect_height (rect field)"

text \<open>
  Two spreadsheets to run the repository on, one of them lacking the theme column, and
  the photos read from the first. A header map is complete when it has a header for each
  of the four required columns.
\<close>

definition demo_table :: "string list list" where
  "demo_table =
     [[''Full  Name'', ''THEME name'', ''Description about your photograph'',
       ''Submit your view (Photo upload)'', ''Timestamp''],
      [''Ann'', ''Sea'', ''calm'', ''http://a, http://b ,''],
      [],
      ['' '', ''Sky'', ''blue'', ''http://c''],
      [''Bob'', ''Sky'', ''grey'', '' , ''],
      [''Cy'', ''Hill''],
      [''Di'', ''Hill'', '''', ''http://d'']]"

definition no_theme_table :: "string list list" where
  "no_theme_table =
     [[''Full Name'', ''Description about your photograph'', ''Submit your view (Photo upload)''],
      [''Ann'', ''calm'', ''http://a'']]"

definition demo_photos :: "ParticipantPhoto list" where
  "demo_photos =
     [\<lparr>sequence = 1, submission_index = 1, participant_name = ''Ann'', theme = ''Sea'',
       description = ''calm'', url = ''http://a'', local_path = None, orientation = None\<rparr>,
      \<lparr>sequence = 2, submission_index = 1, participant_name = ''Ann'', theme = ''Sea'',
       description = ''calm'', url = ''http://b'', local_path = None, orientation = None\<rparr>,
      \<lparr>sequence = 3, submission_index = 5, participant_name = ''Di'', theme = ''Hill'',
       description = [], url = ''http://d'', local_path = None, orientation = None\<rparr>]"

definition complete_header_map :: "(string \<rightharpoonup> string) \<Rightarrow> bool" where
  "complete_header_map hm =
     (hm ''participant_name'' \<noteq> None \<and> hm ''theme'' \<noteq> None
      \<and> hm ''description'' \<noteq> None \<and> hm ''photo_links'' \<noteq> None)"

text \<open>A layout with a badge whose template path is absolute.\<close>

definition absolute_layout :: TemplateLayout where
  "absolute_layout = demo_layout\<lparr>template_path := ''/srv/templates/landscape.png'',
                                  badge := Some demo_field\<rparr>"

text \<open>
  A spreadsheet whose header row repeats the name column, with a row that ends before
  the repeated column and a row that fills it, and the photos read from it. A layout
  whose template path names a user that does not exist.
\<close>

definition repeated_header_table :: "string list list" where
  "repeated_header_table =
     [[''Full Name'', ''Theme Name'', ''Description about your photograph'',
       ''Submit your view (photo upload)'', ''Full Name''],
      [''Ann'', ''Sea'', ''calm'', ''http://a''],
      [''Ann'', ''Sea'', ''calm'', ''http://b'', ''Bea'']]"

definition repeated_header_photos :: "ParticipantPhoto list" where
  "repeated_header_photos =
     [\<lparr>sequence = 1, submission_index = 2, participant_name = ''Bea'', theme = ''Sea'',
       description = ''calm'', url = ''http://b'', local_path = None, orientation = None\<rparr>]"

definition unresolved_layout :: TemplateLayout where
  "unresolved_layout = demo_layout\<lparr>template_path := ''~nosuchuser/template.png''\<rparr>"

section \<open>The filename slug\<close>

lemma char_eq_code: "(c = d) = ((of_char c :: nat) = of_char d)"
  by simp

lemma of_char_lower:
  "(of_char (py_lower_char c) :: nat) =
     (let n = of_char c in if (65 \<le> n \<and> n \<le> 90) \<or> (192 \<le> n \<and> n \<le> 222 \<and> n \<noteq> 215) then n + 32 else n)"
  by (auto simp: py_lower_char_def Let_def)

lemma py_lower_char_hyphen: "py_lower_char c = CHR ''-'' \<longleftrightarrow> c = CHR ''-''"
  unfolding char_eq_code [of _ "CHR ''-''"] of_char_lower by (auto simp: Let_def)




lemma strip_with_all: "\<forall>c\<in>set s. P c \<Longrightarrow> strip_with P s = []"
proof -
  assume "\<forall>c\<in>set s. P c"
  then have "dropWhile P s = []" by (simp add: dropWhile_eq_Nil_conv)
  then show ?thesis unfolding strip_with_def by (simp del: dropWhile_eq_Nil_conv)
qed

lemma strip_with_nonempty_ends:
  "strip_with P s \<noteq> [] \<Longrightarrow> \<not> P (hd (strip_with P s)) \<and> \<not> P (last (strip_with P s))"
proof -
  assume ne: "strip_with P s \<noteq> []"
  let ?t = "dropWhile P s"
  let ?u = "dropWhile P (rev ?t)"
  from ne have u: "?u \<noteq> []" by (simp add: strip_with_def)
  then have "\<not> P (hd ?u)" by (rule hd_dropWhile)
  then have l: "\<not> P (last (strip_with P s))"
    using u by (simp add: strip_with_def last_rev)
  from u have t: "?t \<noteq> []" by (cases "?t") auto
  then have ht: "\<not> P (hd ?t)" by (rule hd_dropWhile)
  obtain post where "?t = strip_with P s @ post"
    by (metis append_take_drop_id dropWhile_eq_drop rev_append rev_rev_ident strip_with_def takeWhile_dropWhile_id)
  with ne have "hd ?t = hd (strip_with P s)" by (metis hd_append2)
  with ht l show ?thesis by simp
qed











lemma slug_eq: "slug v = (if slug_core v \<noteq> [] then take 60 (py_lower (slug_core v)) else ''item'')"
  by (simp add: slug_def slug_core_def Let_def)








lemma slug_ends: "slug_core v \<noteq> [] \<Longrightarrow> length (slug_core v) \<le> 60 \<Longrightarrow> hd (slug v) \<noteq> CHR ''-'' \<and> last (slug v) \<noteq> CHR ''-''"
proof -
  assume ne: "slug_core v \<noteq> []" and le: "length (slug_core v) \<le> 60"
  have "\<not> (hd (slug_core v) \<in> set ''- '') \<and> \<not> (last (slug_core v) \<in> set ''- '')"
    using ne unfolding slug_core_def py_strip_chars_def by (rule strip_with_nonempty_ends)
  then have "hd (slug_core v) \<noteq> CHR ''-''" "last (slug_core v) \<noteq> CHR ''-''" by auto
  moreover have "slug v = py_lower (slug_core v)" using ne le by (simp add: slug_eq py_lower_def)
  ultimately show ?thesis using ne
    by (simp add: py_lower_def hd_map last_map py_lower_char_hyphen)
qed

lemma dec_digits_length: "1 \<le> length (dec_digits n)"
  by (subst dec_digits.simps) simp

lemma format_03d_length: "0 \<le> n \<Longrightarrow> length (format_03d n) = max 3 (length (dec_digits (nat n)))"
  by (auto simp: format_03d_def zero_pad_def)



section \<open>Download routing and the confirm token\<close>

lemmas io_defs = io_bind_def io_call_def io_return_def io_raise_def io_try_def report_def

lemma startswith_iff: "startswith s p \<longleftrightarrow> (\<exists>post. s = p @ post)"
  by (induction s p rule: startswith.induct) auto

lemma py_contains_iff: "py_contains sub s \<longleftrightarrow> (\<exists>pre post. s = pre @ sub @ post)"
proof (induction s)
  case Nil
  then show ?case by auto
next
  case (Cons c cs)
  show ?case
  proof
    assume "py_contains sub (c # cs)"
    then consider "startswith (c # cs) sub" | "py_contains sub cs" by auto
    then show "\<exists>pre post. c # cs = pre @ sub @ post"
    proof cases
      case 1
      then obtain post where "c # cs = sub @ post" using startswith_iff by blast
      then have "c # cs = [] @ sub @ post" by simp
      then show ?thesis by blast
    next
      case 2
      then obtain pre post where "cs = pre @ sub @ post" using Cons.IH by blast
      then have "c # cs = (c # pre) @ sub @ post" by simp
      then show ?thesis by blast
    qed
  next
    assume "\<exists>pre post. c # cs = pre @ sub @ post"
    then obtain pre post where e: "c # cs = pre @ sub @ post" by blast
    show "py_contains sub (c # cs)"
    proof (cases pre)
      case Nil
      with e have "startswith (c # cs) sub" using startswith_iff by auto
      then show ?thesis by simp
    next
      case (Cons a pre')
      with e have "cs = pre' @ sub @ post" by simp
      then have "py_contains sub cs" using Cons.IH by blast
      then show ?thesis by simp
    qed
  qed
qed

text \<open>
  C10. A URL that is not empty is handed to the download from the drive host exactly
  when the text \<open>drive.google.com\<close> occurs somewhere in it, wherever that is, and to
  the generic download otherwise; the empty URL raises a download error before anything
  else happens.
\<close>

theorem download_routing:
  "download env u output_dir =
     (if u = [] then io_raise (PhotoDownloadError ''Empty URL provided'')
      else io_bind (io_call (Mkdir output_dir) (mkdir env output_dir))
             (\<lambda>_. if (\<exists>pre post. u = pre @ ''drive.google.com'' @ post)
                   then download_from_drive env u output_dir
                   else download_generic env u output_dir))"
  by (simp add: download_def py_contains_iff DRIVE_HOST_def)

lemma drive_two_requests:
  assumes "extract_drive_id u = Some file_id" and "file_id \<noteq> []"
    and "session_get env (drive_request [(''id'', file_id)]) w = (Inr resp1, w1)"
    and "find (\<lambda>(key, v). startswith key ''download_warning'') (cookies resp1) = Some (key, token)"
    and "token \<noteq> []"
    and "session_get env (drive_request [(''id'', file_id), (''confirm'', token)]) w1 = (Inr resp2, w2)"
    and "ok resp2"
    and "write_file env (joinpath env output_dir (resolve_filename file_id (content_disposition resp2)))
           (chunks resp2) w2 = (Inr (), w3)"
  shows "download_from_drive env u output_dir w =
           (Inr (joinpath env output_dir (resolve_filename file_id (content_disposition resp2))),
            [HttpGet (drive_request [(''id'', file_id)]),
             HttpGet (drive_request [(''id'', file_id), (''confirm'', token)]),
             WriteFile (joinpath env output_dir (resolve_filename file_id (content_disposition resp2)))],
            w3)"
  using assms
  by (simp add: download_from_drive_def drive_confirm_token_def save_response_def io_defs Let_def)

lemma drive_no_id:
  "extract_drive_id u = None \<Longrightarrow>
   download_from_drive env u output_dir w =
     (Inl (PhotoDownloadError (''Unable to parse Google Drive id: '' @ u)), [], w)"
  by (simp add: download_from_drive_def io_defs)

lemma re_match_here_length: "re_match_here lit P n term s = Some g \<Longrightarrow> n \<le> length g"
  by (auto simp: re_match_here_def Let_def split: if_splits)

lemma re_search_group_length: "re_search_group lit P n term s = Some g \<Longrightarrow> n \<le> length g"
  by (induction s) (auto split: option.splits dest: re_match_here_length)

lemma extract_drive_id_length: "extract_drive_id u = Some g \<Longrightarrow> 10 \<le> length g"
  by (auto simp: extract_drive_id_def split: option.splits dest: re_search_group_length)


lemma drive_url_id: "extract_drive_id drive_url = Some ''1AbCdEfGhIjKlMn''"
  unfolding drive_url_def by code_simp

lemma short_url_id: "extract_drive_id ''https://drive.google.com/open?id=short'' = None"
  by code_simp

theorem download_routing_witness:
  "download demo_env ''https://example.org/?next=drive.google.com'' ''cache'' 0 =
     (Inl (PhotoDownloadError
            ''Unable to parse Google Drive id: https://example.org/?next=drive.google.com''),
      [Mkdir ''cache''], 0)
   \<and> download demo_env ''https://example.org/a.jpg'' ''cache'' 0 =
     (Inr ''cache/httpsexampleorgajpg.jpg'',
      [Mkdir ''cache'',
       HttpGet \<lparr>req_url = ''https://example.org/a.jpg'', req_params = [], req_timeout = Some 60\<rparr>,
       WriteFile ''cache/httpsexampleorgajpg.jpg''], 1)"
proof -
  let ?u = "''https://example.org/?next=drive.google.com''"
  let ?v = "''https://example.org/a.jpg''"
  have "?u = ''https://example.org/?next='' @ ''drive.google.com'' @ []" by simp
  then have e: "\<exists>pre post. ?u = pre @ ''drive.google.com'' @ post" by blast
  have ne: "\<not> (\<exists>pre post. ?v = pre @ ''drive.google.com'' @ post)"
    unfolding py_contains_iff [symmetric] by code_simp
  have i: "extract_drive_id ?u = None" by code_simp
  have n: "resolve_filename ?v None = ''httpsexampleorgajpg.jpg''" by code_simp
  have a: "download demo_env ?u ''cache'' 0 =
     (Inl (PhotoDownloadError (''Unable to parse Google Drive id: '' @ ?u)), [Mkdir ''cache''], 0)"
    unfolding download_routing [of demo_env ?u] using e
    by (simp add: io_defs demo_env_def drive_no_id [OF i])
  have b: "download demo_env ?v ''cache'' 0 =
     (Inr ''cache/httpsexampleorgajpg.jpg'',
      [Mkdir ''cache'',
       HttpGet \<lparr>req_url = ?v, req_params = [], req_timeout = Some 60\<rparr>,
       WriteFile ''cache/httpsexampleorgajpg.jpg''], 1)"
    unfolding download_routing [of demo_env ?v] using ne
    by (simp add: io_defs demo_env_def download_generic_def save_response_def demo_response_def n Let_def)
  from a b show ?thesis by simp
qed

text \<open>
  C5 (amended). For a URL from which a file identifier is extracted, when among the
  cookies of the first response the first one whose key starts with
  \<open>download_warning\<close> has a value that is not empty, exactly two requests go out, the
  second repeating the first with the parameter \<open>confirm\<close> set to that value, and the
  download succeeds when the second response is successful and the file is written,
  whatever the status of the first response. Where no identifier pattern matches, the
  download fails with a download error and no request goes out.
\<close>

theorem drive_confirm_two_requests:
  "(extract_drive_id u = Some file_id
      \<and> session_get env (drive_request [(''id'', file_id)]) w = (Inr resp1, w1)
      \<and> find (\<lambda>(key, v). startswith key ''download_warning'') (cookies resp1) = Some (key, token)
      \<and> token \<noteq> []
      \<and> session_get env (drive_request [(''id'', file_id), (''confirm'', token)]) w1 = (Inr resp2, w2)
      \<and> ok resp2
      \<and> write_file env (joinpath env output_dir (resolve_filename file_id (content_disposition resp2)))
           (chunks resp2) w2 = (Inr (), w3)
    \<longrightarrow> download_from_drive env u output_dir w =
           (Inr (joinpath env output_dir (resolve_filename file_id (content_disposition resp2))),
            [HttpGet (drive_request [(''id'', file_id)]),
             HttpGet (drive_request [(''id'', file_id), (''confirm'', token)]),
             WriteFile (joinpath env output_dir (resolve_filename file_id (content_disposition resp2)))],
            w3))
   \<and> (extract_drive_id u = None
    \<longrightarrow> download_from_drive env u output_dir w =
           (Inl (PhotoDownloadError (''Unable to parse Google Drive id: '' @ u)), [], w))"
proof (intro conjI impI)
  assume a: "extract_drive_id u = Some file_id
      \<and> session_get env (drive_request [(''id'', file_id)]) w = (Inr resp1, w1)
      \<and> find (\<lambda>(key, v). startswith key ''download_warning'') (cookies resp1) = Some (key, token)
      \<and> token \<noteq> []
      \<and> session_get env (drive_request [(''id'', file_id), (''confirm'', token)]) w1 = (Inr resp2, w2)
      \<and> ok resp2
      \<and> write_file env (joinpath env output_dir (resolve_filename file_id (content_disposition resp2)))
           (chunks resp2) w2 = (Inr (), w3)"
  then have "10 \<le> length file_id" using extract_drive_id_length by blast
  then have "file_id \<noteq> []" by auto
  then show "download_from_drive env u output_dir w =
           (Inr (joinpath env output_dir (resolve_filename file_id (content_disposition resp2))),
            [HttpGet (drive_request [(''id'', file_id)]),
             HttpGet (drive_request [(''id'', file_id), (''confirm'', token)]),
             WriteFile (joinpath env output_dir (resolve_filename file_id (content_disposition resp2)))],
            w3)"
    by (rule drive_two_requests [OF a [THEN conjunct1] _
          a [THEN conjunct2, THEN conjunct1]
          a [THEN conjunct2, THEN conjunct2, THEN conjunct1]
          a [THEN conjunct2, THEN conjunct2, THEN conjunct2, THEN conjunct1]
          a [THEN conjunct2, THEN conjunct2, THEN conjunct2, THEN conjunct2, THEN conjunct1]
          a [THEN conjunct2, THEN conjunct2, THEN conjunct2, THEN conjunct2, THEN conjunct2, THEN conjunct1]
          a [THEN conjunct2, THEN conjunct2, THEN conjunct2, THEN conjunct2, THEN conjunct2, THEN conjunct2]])
next
  assume "extract_drive_id u = None"
  then show "download_from_drive env u output_dir w =
           (Inl (PhotoDownloadError (''Unable to parse Google Drive id: '' @ u)), [], w)"
    by (rule drive_no_id)
qed

theorem drive_confirm_two_requests_witness:
  "\<not> ok (demo_response (drive_request [(''id'', ''1AbCdEfGhIjKlMn'')]))
   \<and> download_from_drive demo_env drive_url ''cache'' 0 =
       (Inr ''cache/1AbCdEfGhIjKlMn.jpg'',
        [HttpGet (drive_request [(''id'', ''1AbCdEfGhIjKlMn'')]),
         HttpGet (drive_request [(''id'', ''1AbCdEfGhIjKlMn''), (''confirm'', ''t0k'')]),
         WriteFile ''cache/1AbCdEfGhIjKlMn.jpg''],
        2)
   \<and> download_from_drive demo_env ''https://drive.google.com/open?id=short'' ''cache'' 0 =
       (Inl (PhotoDownloadError
              ''Unable to parse Google Drive id: https://drive.google.com/open?id=short''), [], 0)"
proof -
  let ?r1 = "demo_response (drive_request [(''id'', ''1AbCdEfGhIjKlMn'')])"
  let ?r2 = "demo_response (drive_request [(''id'', ''1AbCdEfGhIjKlMn''), (''confirm'', ''t0k'')])"
  have r1: "?r1 = \<lparr>ok = False, cookies = [(''NID'', ''1''), (''download_warning_123'', ''t0k'')],
                    content_disposition = None, chunks = []\<rparr>"
    by (simp add: demo_response_def drive_request_def)
  have r2: "?r2 = \<lparr>ok = True, cookies = [], content_disposition = None, chunks = [''data'']\<rparr>"
    by (simp add: demo_response_def drive_request_def)
  have g1: "session_get demo_env (drive_request [(''id'', ''1AbCdEfGhIjKlMn'')]) 0 = (Inr ?r1, 1)"
    by (simp add: demo_env_def)
  have g2: "session_get demo_env (drive_request [(''id'', ''1AbCdEfGhIjKlMn''), (''confirm'', ''t0k'')]) 1
              = (Inr ?r2, 2)"
    by (simp add: demo_env_def)
  have f: "find (\<lambda>(key, v). startswith key ''download_warning'') (cookies ?r1)
             = Some (''download_warning_123'', ''t0k'')"
    by (simp add: r1)
  have n: "resolve_filename ''1AbCdEfGhIjKlMn'' (content_disposition ?r2) = ''1AbCdEfGhIjKlMn.jpg''"
    unfolding r2 by code_simp
  have j: "joinpath demo_env ''cache'' ''1AbCdEfGhIjKlMn.jpg'' = ''cache/1AbCdEfGhIjKlMn.jpg''"
    by (simp add: demo_env_def)
  have wr: "write_file demo_env (joinpath demo_env ''cache''
               (resolve_filename ''1AbCdEfGhIjKlMn'' (content_disposition ?r2))) (chunks ?r2) 2
             = (Inr (), 2)"
    by (simp add: demo_env_def)
  have k: "ok ?r2" by (simp add: r2)
  have t: "''t0k'' \<noteq> []" by simp
  have "download_from_drive demo_env drive_url ''cache'' 0 =
       (Inr (joinpath demo_env ''cache'' (resolve_filename ''1AbCdEfGhIjKlMn'' (content_disposition ?r2))),
        [HttpGet (drive_request [(''id'', ''1AbCdEfGhIjKlMn'')]),
         HttpGet (drive_request [(''id'', ''1AbCdEfGhIjKlMn''), (''confirm'', ''t0k'')]),
         WriteFile (joinpath demo_env ''cache'' (resolve_filename ''1AbCdEfGhIjKlMn'' (content_disposition ?r2)))],
        2)"
    using drive_confirm_two_requests [of drive_url "''1AbCdEfGhIjKlMn''" demo_env 0 ?r1 1
              "''download_warning_123''" "''t0k''" ?r2 2 "''cache''" 2, THEN conjunct1]
          drive_url_id g1 g2 f t k wr
    by blast
  then have a: "download_from_drive demo_env drive_url ''cache'' 0 =
       (Inr ''cache/1AbCdEfGhIjKlMn.jpg'',
        [HttpGet (drive_request [(''id'', ''1AbCdEfGhIjKlMn'')]),
         HttpGet (drive_request [(''id'', ''1AbCdEfGhIjKlMn''), (''confirm'', ''t0k'')]),
         WriteFile ''cache/1AbCdEfGhIjKlMn.jpg''],
        2)"
    unfolding n j .
  have b: "download_from_drive demo_env ''https://drive.google.com/open?id=short'' ''cache'' 0 =
       (Inl (PhotoDownloadError
              ''Unable to parse Google Drive id: https://drive.google.com/open?id=short''), [], 0)"
    using drive_confirm_two_requests [of "''https://drive.google.com/open?id=short''" _ demo_env,
              THEN conjunct2] short_url_id
    by simp
  have c: "\<not> ok ?r1" by (simp add: r1)
  from a b c show ?thesis by blast
qed

theorem drive_empty_token_counterexample:
  "extract_drive_id drive_url = Some ''1AbCdEfGhIjKlMn''
   \<and> session_get empty_token_env (drive_request [(''id'', ''1AbCdEfGhIjKlMn'')]) 0 =
       (Inr \<lparr>ok = True, cookies = [(''download_warning_123'', [])],
              content_disposition = None, chunks = [''data'']\<rparr>, 1)
   \<and> startswith ''download_warning_123'' ''download_warning''
   \<and> download_from_drive empty_token_env drive_url ''cache'' 0 =
       (Inr ''cache/1AbCdEfGhIjKlMn.jpg'',
        [HttpGet (drive_request [(''id'', ''1AbCdEfGhIjKlMn'')]),
         WriteFile ''cache/1AbCdEfGhIjKlMn.jpg''],
        1)"
proof -
  have n: "resolve_filename ''1AbCdEfGhIjKlMn'' None = ''1AbCdEfGhIjKlMn.jpg''"
    by code_simp
  have "download_from_drive empty_token_env drive_url ''cache'' 0 =
       (Inr ''cache/1AbCdEfGhIjKlMn.jpg'',
        [HttpGet (drive_request [(''id'', ''1AbCdEfGhIjKlMn'')]),
         WriteFile ''cache/1AbCdEfGhIjKlMn.jpg''],
        1)"
    by (simp add: download_from_drive_def drive_url_id drive_confirm_token_def save_response_def
          io_defs Let_def empty_token_env_def demo_env_def n)
  moreover have "session_get empty_token_env (drive_request [(''id'', ''1AbCdEfGhIjKlMn'')]) 0 =
       (Inr \<lparr>ok = True, cookies = [(''download_warning_123'', [])],
              content_disposition = None, chunks = [''data'']\<rparr>, 1)"
    by (simp add: empty_token_env_def demo_env_def)
  moreover have "startswith ''download_warning_123'' ''download_warning''" by simp
  ultimately show ?thesis using drive_url_id by blast
qed

section \<open>The generation orchestrator\<close>











text \<open>
  C1. The run of \<open>generate\<close> on a batch whose first photo downloads to a file that
  does not open as an image: the error raised while the orientation is detected leaves
  \<open>generate\<close>, nothing is reported to the progress sink about it, and the second
  photo is never reached.
\<close>

theorem generate_decode_error_escapes:
  "generate demo_env demo_layouts
     [photo_at 1 ''http://example.org/broken.jpg'', photo_at 2 ''http://example.org/b.jpg'']
     ''out'' ''cache'' True 0 =
     (Inl (OSError ''cannot identify image file''),
      [Mkdir ''out'', Mkdir ''cache'',
       Progress ''Downloading (1): http://example.org/broken.jpg'', Mkdir ''cache'',
       HttpGet \<lparr>req_url = ''http://example.org/broken.jpg'', req_params = [],
                req_timeout = Some 60\<rparr>,
       WriteFile ''cache/httpexampleorgbrokenjpg.jpg'',
       OpenImage ''cache/httpexampleorgbrokenjpg.jpg''],
      1)"
  by code_simp

section \<open>Text wrapping and drawing\<close>

lemma split_ws_words:
  "\<forall>c \<in> set cur. \<not> py_isspace c \<Longrightarrow> w \<in> set (split_ws cur s) \<Longrightarrow> is_word w"
proof (induction s arbitrary: cur)
  case Nil
  then show ?case by (auto simp: is_word_def split: if_splits)
next
  case (Cons c cs)
  show ?case
  proof (cases "py_isspace c")
    case True
    with Cons.prems have "w = cur \<and> cur \<noteq> [] \<or> w \<in> set (split_ws [] cs)"
      by (auto split: if_splits)
    then show ?thesis
      using Cons.IH [of "[]"] Cons.prems(1) by (auto simp: is_word_def)
  next
    case False
    with Cons.prems have "w \<in> set (split_ws (cur @ [c]) cs)" by simp
    moreover have "\<forall>x \<in> set (cur @ [c]). \<not> py_isspace x" using False Cons.prems(1) by auto
    ultimately show ?thesis using Cons.IH by blast
  qed
qed

lemma py_split_words: "w \<in> set (py_split s) \<Longrightarrow> is_word w"
  unfolding py_split_def using split_ws_words [of "[]"] by simp

lemma split_ws_append_word:
  "\<forall>c \<in> set w. \<not> py_isspace c \<Longrightarrow> split_ws cur (w @ rest) = split_ws (cur @ w) rest"
  by (induction w arbitrary: cur) auto

lemma isspace_space: "py_isspace CHR '' ''"
  by (simp add: py_isspace_def)

lemma split_ws_join:
  "ws \<noteq> [] \<Longrightarrow> \<forall>w \<in> set ws. is_word w \<Longrightarrow>
   split_ws cur (py_join '' '' ws) = (cur @ hd ws) # tl ws"
proof (induction "'' ''" ws arbitrary: cur rule: py_join.induct)
  case 1
  then show ?case by simp
next
  case (2 w)
  then have "\<forall>c \<in> set w. \<not> py_isspace c" "w \<noteq> []" by (auto simp: is_word_def)
  then show ?case using split_ws_append_word [of w cur "[]"] by simp
next
  case (3 w v ws)
  then have w: "\<forall>c \<in> set w. \<not> py_isspace c" "w \<noteq> []" by (auto simp: is_word_def)
  have "split_ws cur (py_join '' '' (w # v # ws)) = split_ws (cur @ w) ('' '' @ py_join '' '' (v # ws))"
    using split_ws_append_word [OF w(1)] by simp
  also have "\<dots> = (cur @ w) # split_ws [] (py_join '' '' (v # ws))"
    using w(2) isspace_space by simp
  also have "split_ws [] (py_join '' '' (v # ws)) = v # ws"
    using 3 by simp
  finally show ?case by simp
qed

lemma py_split_join:
  "\<forall>w \<in> set ws. is_word w \<Longrightarrow> py_split (py_join '' '' ws) = ws"
proof (cases ws)
  case Nil
  then show ?thesis by (simp add: py_split_def)
next
  case (Cons a as)
  assume "\<forall>w \<in> set ws. is_word w"
  then show ?thesis unfolding py_split_def using split_ws_join [of ws "[]"] Cons by simp
qed

lemma wrap_loop_groups:
  assumes "\<forall>w \<in> set words. is_word w"
    and "current = [] \<or> wrapped_line ts fnt max_width current"
  shows "\<exists>gs. wrap_loop ts fnt max_width words lines current = lines @ map (py_join '' '') gs
              \<and> concat gs = current @ words
              \<and> (\<forall>g \<in> set gs. wrapped_line ts fnt max_width g)"
  using assms
proof (induction words arbitrary: lines current)
  case Nil
  show ?case
  proof (cases "current = []")
    case True
    then have "wrap_loop ts fnt max_width [] lines current = lines @ map (py_join '' '') []
                 \<and> concat [] = current @ [] \<and> (\<forall>g \<in> set []. wrapped_line ts fnt max_width g)"
      by simp
    then show ?thesis by blast
  next
    case False
    with Nil have "wrap_loop ts fnt max_width [] lines current = lines @ map (py_join '' '') [current]
                 \<and> concat [current] = current @ [] \<and> (\<forall>g \<in> set [current]. wrapped_line ts fnt max_width g)"
      by simp
    then show ?thesis by blast
  qed
next
  case (Cons word words)
  have word: "is_word word" and rest: "\<forall>w \<in> set words. is_word w" using Cons.prems(1) by auto
  have cand: "(if current \<noteq> [] then py_join '' '' (current @ [word]) else word)
                = py_join '' '' (current @ [word])"
    by simp
  show ?case
  proof (cases "fst (ts fnt (py_join '' '' (current @ [word]))) \<le> max_width \<or> current = []")
    case True
    have cw: "\<forall>w \<in> set (current @ [word]). is_word w"
      using word Cons.prems(2) by (auto simp: wrapped_line_def)
    have "wrapped_line ts fnt max_width (current @ [word])"
      using True cw by (auto simp: wrapped_line_def)
    then obtain gs where
      "wrap_loop ts fnt max_width words lines (current @ [word]) = lines @ map (py_join '' '') gs"
      "concat gs = (current @ [word]) @ words" "\<forall>g \<in> set gs. wrapped_line ts fnt max_width g"
      using Cons.IH [OF rest, of "current @ [word]" lines] by blast
    moreover have "wrap_loop ts fnt max_width (word # words) lines current
                   = wrap_loop ts fnt max_width words lines (current @ [word])"
      using True by (simp add: Let_def cand del: py_join.simps)
    ultimately show ?thesis by auto
  next
    case False
    then have ne: "current \<noteq> []" by simp
    with Cons.prems(2) have wc: "wrapped_line ts fnt max_width current" by simp
    have "wrapped_line ts fnt max_width [word]" using word by (simp add: wrapped_line_def)
    then obtain gs where g:
      "wrap_loop ts fnt max_width words (lines @ [py_join '' '' current]) [word]
         = (lines @ [py_join '' '' current]) @ map (py_join '' '') gs"
      "concat gs = [word] @ words" "\<forall>g \<in> set gs. wrapped_line ts fnt max_width g"
      using Cons.IH [OF rest, of "[word]" "lines @ [py_join '' '' current]"] by blast
    have "wrap_loop ts fnt max_width (word # words) lines current
            = wrap_loop ts fnt max_width words (lines @ [py_join '' '' current]) [word]"
      using False by (simp add: Let_def cand del: py_join.simps)
    with g have "wrap_loop ts fnt max_width (word # words) lines current
                   = lines @ map (py_join '' '') (current # gs)
                 \<and> concat (current # gs) = current @ word # words
                 \<and> (\<forall>g \<in> set (current # gs). wrapped_line ts fnt max_width g)"
      using wc by simp
    then show ?thesis by blast
  qed
qed

lemma wrap_text_groups:
  "\<exists>gs. wrap_text ts text fnt max_width = map (py_join '' '') gs
        \<and> concat gs = py_split text
        \<and> (\<forall>g \<in> set gs. wrapped_line ts fnt max_width g)"
proof (cases "text = [] \<or> py_split text = []")
  case True
  then have "wrap_text ts text fnt max_width = map (py_join '' '') []
             \<and> concat [] = py_split text \<and> (\<forall>g \<in> set []. wrapped_line ts fnt max_width g)"
    by (auto simp: wrap_text_def py_split_def)
  then show ?thesis by blast
next
  case False
  then have "wrap_text ts text fnt max_width = wrap_loop ts fnt max_width (py_split text) [] []"
    by (simp add: wrap_text_def Let_def)
  moreover have "\<forall>w \<in> set (py_split text). is_word w" using py_split_words by blast
  ultimately show ?thesis
    using wrap_loop_groups [of "py_split text" "[]" ts fnt max_width "[]"] by simp
qed

text \<open>
  C6. Every line the greedy word wrap produces either is no wider than the given width
  or consists of a single word; every line is its own words joined by single spaces, and
  the words of the lines, in order, are exactly the words of the text: no word is split
  and none is dropped.
\<close>

theorem wrap_text_lines:
  "(\<forall>line \<in> set (wrap_text ts text fnt max_width).
       (fst (ts fnt line) \<le> max_width \<or> length (py_split line) = 1)
       \<and> py_join '' '' (py_split line) = line)
   \<and> concat (map py_split (wrap_text ts text fnt max_width)) = py_split text"
proof -
  obtain gs where gs: "wrap_text ts text fnt max_width = map (py_join '' '') gs"
    "concat gs = py_split text" "\<forall>g \<in> set gs. wrapped_line ts fnt max_width g"
    using wrap_text_groups by blast
  have sp: "\<And>g. g \<in> set gs \<Longrightarrow> py_split (py_join '' '' g) = g"
    using gs(3) py_split_join by (simp add: wrapped_line_def)
  have "map py_split (map (py_join '' '') gs) = gs"
    using sp by (simp add: map_idI)
  then have c: "concat (map py_split (wrap_text ts text fnt max_width)) = py_split text"
    using gs(1,2) by simp
  have "\<forall>line \<in> set (wrap_text ts text fnt max_width).
       (fst (ts fnt line) \<le> max_width \<or> length (py_split line) = 1)
       \<and> py_join '' '' (py_split line) = line"
  proof
    fix line assume "line \<in> set (wrap_text ts text fnt max_width)"
    then obtain g where g: "g \<in> set gs" "line = py_join '' '' g" using gs(1) by auto
    then have "wrapped_line ts fnt max_width g" using gs(3) by blast
    then show "(fst (ts fnt line) \<le> max_width \<or> length (py_split line) = 1)
       \<and> py_join '' '' (py_split line) = line"
      using g sp by (auto simp: wrapped_line_def)
  qed
  with c show ?thesis by blast
qed


theorem wrap_text_lines_witness:
  "wrap_text (textsize demo_env) demo_text (''default'', 42) 90
     = [''the quick'', ''brown fox'', ''extraordinarily'', ''ok'']
   \<and> fst (textsize demo_env (''default'', 42) ''brown fox'') \<le> 90
   \<and> 90 < fst (textsize demo_env (''default'', 42) ''extraordinarily'')
   \<and> length (py_split ''extraordinarily'') = 1
   \<and> concat (map py_split [''the quick'', ''brown fox'', ''extraordinarily'', ''ok''])
       = py_split demo_text"
proof -
  have w: "wrap_text (textsize demo_env) demo_text (''default'', 42) 90
     = [''the quick'', ''brown fox'', ''extraordinarily'', ''ok'']"
    by code_simp
  have a: "fst (textsize demo_env (''default'', 42) ''brown fox'') \<le> 90"
    by (simp add: demo_env_def)
  have b: "90 < fst (textsize demo_env (''default'', 42) ''extraordinarily'')"
    by (simp add: demo_env_def)
  note t = wrap_text_lines [of "textsize demo_env" demo_text "(''default'', 42)" 90, unfolded w]
  from t have "fst (textsize demo_env (''default'', 42) ''extraordinarily'') \<le> 90
               \<or> length (py_split ''extraordinarily'') = 1"
    by simp
  with b have c: "length (py_split ''extraordinarily'') = 1" by linarith
  from t have d: "concat (map py_split [''the quick'', ''brown fox'', ''extraordinarily'', ''ok''])
       = py_split demo_text"
    by blast
  from w a b c d show ?thesis by blast
qed

lemma draw_lines_length: "length (draw_lines ts field fnt y lines) \<le> length lines"
  by (induction lines arbitrary: y) (auto simp: Let_def)

lemma draw_lines_nonempty: "lines \<noteq> [] \<Longrightarrow> draw_lines ts field fnt y lines \<noteq> []"
  by (cases lines) (auto simp: Let_def)

lemma draw_lines_text:
  "map line_text (draw_lines ts field fnt y lines)
     = take (length (draw_lines ts field fnt y lines)) lines"
  by (induction lines arbitrary: y) (auto simp: Let_def)

lemma cursor_at_0 [simp]: "cursor_at ts field fnt y lines 0 = y"
  by (simp add: cursor_at_def)

lemma cursor_at_Suc [simp]:
  "cursor_at ts field fnt y (line # lines) (Suc i)
     = cursor_at ts field fnt (y + line_advance ts field fnt line) lines i"
  by (simp add: cursor_at_def)

lemma draw_lines_y:
  "i < length (draw_lines ts field fnt y lines) \<Longrightarrow>
   at_y (draw_lines ts field fnt y lines ! i) = cursor_at ts field fnt y lines i"
proof (induction lines arbitrary: y i)
  case Nil
  then show ?case by simp
next
  case (Cons line lines)
  show ?case
  proof (cases i)
    case 0
    then show ?thesis by (simp add: Let_def)
  next
    case (Suc j)
    with Cons.prems have
      "\<not> y + (snd (ts fnt line) + line_spacing (style field)) > rect_y (rect field) + rect_height (rect field)"
      by (auto simp: Let_def split: if_splits)
    with Cons.prems Suc Cons.IH [of j "y + (snd (ts fnt line) + line_spacing (style field))"]
    show ?thesis by (simp add: Let_def line_advance_def)
  qed
qed

lemma draw_lines_x:
  "i < length (draw_lines ts field fnt y lines) \<Longrightarrow>
   rect_x (rect field) \<le> at_x (draw_lines ts field fnt y lines ! i)
   \<and> (align (style field) \<noteq> ''center'' \<and> align (style field) \<noteq> ''right''
        \<longrightarrow> at_x (draw_lines ts field fnt y lines ! i) = rect_x (rect field))"
proof (induction lines arbitrary: y i)
  case Nil
  then show ?case by simp
next
  case (Cons line lines)
  show ?case
  proof (cases i)
    case 0
    then show ?thesis by (simp add: Let_def)
  next
    case (Suc j)
    with Cons.prems have
      "\<not> y + (snd (ts fnt line) + line_spacing (style field)) > rect_y (rect field) + rect_height (rect field)"
      by (auto simp: Let_def split: if_splits)
    with Cons.prems Suc Cons.IH [of j "y + (snd (ts fnt line) + line_spacing (style field))"]
    show ?thesis by (simp add: Let_def)
  qed
qed

lemma draw_lines_within:
  "0 < i \<Longrightarrow> i < length (draw_lines ts field fnt y lines) \<Longrightarrow>
   cursor_at ts field fnt y lines i \<le> field_bottom field"
proof (induction lines arbitrary: y i)
  case Nil
  then show ?case by simp
next
  case (Cons line lines)
  then obtain j where j: "i = Suc j" by (cases i) auto
  let ?y' = "y + (snd (ts fnt line) + line_spacing (style field))"
  from Cons.prems j have le: "\<not> ?y' > rect_y (rect field) + rect_height (rect field)"
    by (auto simp: Let_def split: if_splits)
  with Cons.prems j have len: "j < length (draw_lines ts field fnt ?y' lines)"
    by (simp add: Let_def)
  show ?case
  proof (cases j)
    case 0
    with j le show ?thesis by (simp add: line_advance_def field_bottom_def)
  next
    case (Suc k)
    then have "cursor_at ts field fnt ?y' lines j \<le> field_bottom field"
      using Cons.IH [of j ?y'] len by simp
    with j show ?thesis by (simp add: line_advance_def)
  qed
qed

lemma draw_lines_stop:
  "length (draw_lines ts field fnt y lines) < length lines \<Longrightarrow>
   field_bottom field < cursor_at ts field fnt y lines (length (draw_lines ts field fnt y lines))"
proof (induction lines arbitrary: y)
  case Nil
  then show ?case by simp
next
  case (Cons line lines)
  let ?y' = "y + (snd (ts fnt line) + line_spacing (style field))"
  show ?case
  proof (cases "?y' > rect_y (rect field) + rect_height (rect field)")
    case True
    then show ?thesis by (simp add: Let_def line_advance_def field_bottom_def)
  next
    case False
    with Cons.prems have "length (draw_lines ts field fnt ?y' lines) < length lines"
      by (simp add: Let_def)
    then have "field_bottom field < cursor_at ts field fnt ?y' lines (length (draw_lines ts field fnt ?y' lines))"
      by (rule Cons.IH)
    with False show ?thesis by (simp add: Let_def line_advance_def)
  qed
qed

text \<open>
  C7. The lines drawn for a text field are a prefix of its wrapped lines, the first line
  always among them. Line \<open>i\<close> is drawn at the cursor, which starts at the top of the
  rectangle and advances by the rendered height of each line plus the line spacing; it
  is drawn at the left edge of the rectangle or right of it, and at the left edge unless
  the alignment is center or right. Every line after the first is drawn with the cursor
  not below the bottom edge, and when lines are left undrawn the cursor after the last
  drawn line is below the bottom edge. Drawing is a total function: nothing is raised.
\<close>

theorem draw_text_truncates:
  "length (draw_text env field text) \<le> length (field_lines env field text)
   \<and> (field_lines env field text \<noteq> [] \<longrightarrow> draw_text env field text \<noteq> [])
   \<and> map line_text (draw_text env field text)
       = take (length (draw_text env field text)) (field_lines env field text)
   \<and> (\<forall>i < length (draw_text env field text).
         at_y (draw_text env field text ! i)
           = cursor_at (textsize env) field (font_get (style field)) (rect_y (rect field))
               (field_lines env field text) i
         \<and> rect_x (rect field) \<le> at_x (draw_text env field text ! i)
         \<and> (align (style field) \<noteq> ''center'' \<and> align (style field) \<noteq> ''right''
              \<longrightarrow> at_x (draw_text env field text ! i) = rect_x (rect field)))
   \<and> (\<forall>i. 0 < i \<and> i < length (draw_text env field text) \<longrightarrow>
         cursor_at (textsize env) field (font_get (style field)) (rect_y (rect field))
           (field_lines env field text) i \<le> field_bottom field)
   \<and> (length (draw_text env field text) < length (field_lines env field text) \<longrightarrow>
         field_bottom field
           < cursor_at (textsize env) field (font_get (style field)) (rect_y (rect field))
               (field_lines env field text) (length (draw_text env field text)))"
  unfolding draw_text_def
proof (intro conjI allI impI)
  let ?ts = "textsize env" and ?f = "font_get (style field)" and ?y = "rect_y (rect field)"
  let ?ls = "field_lines env field text"
  show "length (draw_lines ?ts field ?f ?y ?ls) \<le> length ?ls"
    by (rule draw_lines_length)
  show "draw_lines ?ts field ?f ?y ?ls \<noteq> []" if "?ls \<noteq> []"
    using that by (rule draw_lines_nonempty)
  show "map line_text (draw_lines ?ts field ?f ?y ?ls)
          = take (length (draw_lines ?ts field ?f ?y ?ls)) ?ls"
    by (rule draw_lines_text)
  show "at_y (draw_lines ?ts field ?f ?y ?ls ! i) = cursor_at ?ts field ?f ?y ?ls i"
    if "i < length (draw_lines ?ts field ?f ?y ?ls)" for i
    using that by (rule draw_lines_y)
  show "rect_x (rect field) \<le> at_x (draw_lines ?ts field ?f ?y ?ls ! i)"
    if "i < length (draw_lines ?ts field ?f ?y ?ls)" for i
    using draw_lines_x [OF that] by simp
  show "at_x (draw_lines ?ts field ?f ?y ?ls ! i) = rect_x (rect field)"
    if "i < length (draw_lines ?ts field ?f ?y ?ls)"
      and "align (style field) \<noteq> ''center'' \<and> align (style field) \<noteq> ''right''" for i
    using draw_lines_x [OF that(1)] that(2) by simp
  show "cursor_at ?ts field ?f ?y ?ls i \<le> field_bottom field"
    if "0 < i \<and> i < length (draw_lines ?ts field ?f ?y ?ls)" for i
    using that draw_lines_within by blast
  show "field_bottom field < cursor_at ?ts field ?f ?y ?ls (length (draw_lines ?ts field ?f ?y ?ls))"
    if "length (draw_lines ?ts field ?f ?y ?ls) < length ?ls"
    using that by (rule draw_lines_stop)
qed

theorem draw_text_truncates_witness:
  "field_lines demo_env demo_field demo_text
     = [''By the'', ''quick'', ''brown fox'', ''extraordinarily'', ''ok'']
   \<and> map line_text (draw_text demo_env demo_field demo_text) = [''By the'', ''quick'']
   \<and> map at_y (draw_text demo_env demo_field demo_text) = [100, 118]
   \<and> field_bottom demo_field = 130
   \<and> cursor_at (textsize demo_env) demo_field (font_get (style demo_field))
        (rect_y (rect demo_field)) (field_lines demo_env demo_field demo_text) 1 \<le> 130
   \<and> 130 < cursor_at (textsize demo_env) demo_field (font_get (style demo_field))
        (rect_y (rect demo_field)) (field_lines demo_env demo_field demo_text) 2"
proof -
  have l: "field_lines demo_env demo_field demo_text
             = [''By the'', ''quick'', ''brown fox'', ''extraordinarily'', ''ok'']"
    by code_simp
  have d: "draw_text demo_env demo_field demo_text
             = [\<lparr>at_x = 20, at_y = 100, line_text = ''By the'', line_font = (''default'', 42),
                 line_fill = ''#000000''\<rparr>,
                \<lparr>at_x = 25, at_y = 118, line_text = ''quick'', line_font = (''default'', 42),
                 line_fill = ''#000000''\<rparr>]"
    by code_simp
  have b: "field_bottom demo_field = 130"
    by (simp add: field_bottom_def demo_field_def)
  have n: "length (draw_text demo_env demo_field demo_text) = 2"
          "length (field_lines demo_env demo_field demo_text) = 5"
    by (simp_all add: d l)
  note t = draw_text_truncates [of demo_env demo_field demo_text]
  from t n have "field_bottom demo_field
           < cursor_at (textsize demo_env) demo_field (font_get (style demo_field))
               (rect_y (rect demo_field)) (field_lines demo_env demo_field demo_text) 2"
    by simp
  then have over: "130 < cursor_at (textsize demo_env) demo_field (font_get (style demo_field))
        (rect_y (rect demo_field)) (field_lines demo_env demo_field demo_text) 2"
    using b by simp
  from t n have "cursor_at (textsize demo_env) demo_field (font_get (style demo_field))
        (rect_y (rect demo_field)) (field_lines demo_env demo_field demo_text) 1
          \<le> field_bottom demo_field"
    by simp
  then have inside: "cursor_at (textsize demo_env) demo_field (font_get (style demo_field))
        (rect_y (rect demo_field)) (field_lines demo_env demo_field demo_text) 1 \<le> 130"
    using b by simp
  have "map line_text (draw_text demo_env demo_field demo_text) = [''By the'', ''quick'']"
       "map at_y (draw_text demo_env demo_field demo_text) = [100, 118]"
    by (simp_all add: d)
  with l b over inside show ?thesis by blast
qed

section \<open>The submission repository\<close>

lemma required_lookup:
  "(label, alias) \<in> set REQUIRED_KEYS \<Longrightarrow> map_of REQUIRED_KEYS k = Some alias \<longleftrightarrow> k = label"
  unfolding REQUIRED_KEYS_def by (elim disjE | simp)+

lemma add_headers_None:
  "add_headers hs hm alias = None \<longleftrightarrow>
     hm alias = None \<and> (\<forall>h \<in> set hs. map_of REQUIRED_KEYS (normalize_key h) \<noteq> Some alias)"
  proof (induction hs arbitrary: hm)
  case Nil
  then show ?case by simp
next
  case (Cons h hs)
  show ?case
  proof (cases "map_of REQUIRED_KEYS (normalize_key h)")
    case None
    then show ?thesis using Cons.IH [of hm] by simp
  next
    case (Some a)
    then have e: "add_headers (h # hs) hm alias = add_headers hs (hm(a \<mapsto> h)) alias" by simp
    have u: "(hm(a \<mapsto> h)) alias = None \<longleftrightarrow> a \<noteq> alias \<and> hm alias = None" by auto
    have "(\<forall>x \<in> set (h # hs). map_of REQUIRED_KEYS (normalize_key x) \<noteq> Some alias)
            \<longleftrightarrow> a \<noteq> alias \<and> (\<forall>x \<in> set hs. map_of REQUIRED_KEYS (normalize_key x) \<noteq> Some alias)"
      using Some by auto
    then show ?thesis unfolding e Cons.IH [of "hm(a \<mapsto> h)"] u by blast
  qed
qed


lemma header_missing_iff:
  assumes "(label, alias) \<in> set REQUIRED_KEYS"
  shows "add_headers headers Map.empty alias = None \<longleftrightarrow> label \<notin> set (map normalize_key headers)"
proof -
  have "add_headers headers Map.empty alias = None \<longleftrightarrow>
          (\<forall>h \<in> set headers. map_of REQUIRED_KEYS (normalize_key h) \<noteq> Some alias)"
    by (simp add: add_headers_None)
  also have "\<dots> \<longleftrightarrow> (\<forall>h \<in> set headers. normalize_key h \<noteq> label)"
    by (simp add: required_lookup [OF assms])
  also have "\<dots> \<longleftrightarrow> label \<notin> set (map normalize_key headers)"
    by auto
  finally show ?thesis .
qed


lemma missing_labels_eq:
  "missing_labels (add_headers headers Map.empty)
     = [label \<leftarrow> map fst REQUIRED_KEYS. label \<notin> set (map normalize_key headers)]"
proof -
  have "\<And>p. p \<in> set REQUIRED_KEYS \<Longrightarrow>
          (case p of (label, alias) \<Rightarrow> add_headers headers Map.empty alias = None)
            = (fst p \<notin> set (map normalize_key headers))"
  proof -
    fix p :: "string \<times> string" assume m: "p \<in> set REQUIRED_KEYS"
    obtain lbl al where p: "p = (lbl, al)" by (cases p)
    with m have "(lbl, al) \<in> set REQUIRED_KEYS" by simp
    then show "(case p of (label, alias) \<Rightarrow> add_headers headers Map.empty alias = None)
            = (fst p \<notin> set (map normalize_key headers))"
      unfolding p by (simp only: header_missing_iff prod.case fst_conv)
  qed
  then have "filter (\<lambda>(label, alias). add_headers headers Map.empty alias = None) REQUIRED_KEYS
          = filter (\<lambda>p. fst p \<notin> set (map normalize_key headers)) REQUIRED_KEYS"
    by (rule filter_cong [OF refl])
  then show ?thesis
    unfolding missing_labels_def by (simp only: filter_map comp_def)
qed

lemma py_join_contains:
  "w \<in> set ws \<Longrightarrow> \<exists>pre post. py_join sep ws = pre @ w @ post"
proof (induction sep ws rule: py_join.induct)
  case (1 sep)
  then show ?case by simp
next
  case (2 sep v)
  then have "py_join sep [v] = [] @ w @ []" by simp
  then show ?case by blast
next
  case (3 sep a b ws)
  show ?case
  proof (cases "w = a")
    case True
    then have "py_join sep (a # b # ws) = [] @ w @ (sep @ py_join sep (b # ws))" by simp
    then show ?thesis by blast
  next
    case False
    with 3 obtain pre post where "py_join sep (b # ws) = pre @ w @ post" by auto
    then have "py_join sep (a # b # ws) = (a @ sep @ pre) @ w @ post" by simp
    then show ?thesis by blast
  qed
qed

text \<open>
  C8. When the header row of an existing file lacks one or more of the four required
  columns, the headers being compared in lower case with every run of whitespace
  collapsed to one space and the ends trimmed, \<open>read_submissions\<close> fails with a
  \<open>ValueError\<close> whose message lists the missing columns in sorted order, each of them
  occurring in the message. The result does not depend on the data rows, and no photo is
  returned.
\<close>

theorem missing_columns_rejected:
  assumes "fs csv_path = Some table"
    and "headers = (case table of [] \<Rightarrow> [] | h # _ \<Rightarrow> h)"
    and "missing = [label \<leftarrow> map fst REQUIRED_KEYS. label \<notin> set (map normalize_key headers)]"
    and "missing \<noteq> []"
  shows "read_submissions fs csv_path
           = Inl (ValueError (''Missing expected columns in CSV: '' @ py_join '', '' (sort missing)))
         \<and> (\<forall>label \<in> set missing.
               py_contains label (''Missing expected columns in CSV: '' @ py_join '', '' (sort missing)))"
proof -
  have m: "missing_labels (add_headers headers Map.empty) = missing"
    using assms(3) by (simp only: missing_labels_eq)
  have "prepare_header_map headers
          = Inl (ValueError (''Missing expected columns in CSV: '' @ py_join '', '' (sort missing)))"
    using assms(4) by (simp add: prepare_header_map_def Let_def m)
  then have r: "read_submissions fs csv_path
           = Inl (ValueError (''Missing expected columns in CSV: '' @ py_join '', '' (sort missing)))"
    unfolding read_submissions_def assms(1) using assms(2) by (simp add: Let_def)
  have "\<forall>label \<in> set missing.
          py_contains label (''Missing expected columns in CSV: '' @ py_join '', '' (sort missing))"
  proof
    fix label assume "label \<in> set missing"
    then have "label \<in> set (sort missing)" by simp
    then obtain pre post where "py_join '', '' (sort missing) = pre @ label @ post"
      using py_join_contains by blast
    then have "''Missing expected columns in CSV: '' @ py_join '', '' (sort missing)
                 = (''Missing expected columns in CSV: '' @ pre) @ label @ post"
      by simp
    then show "py_contains label (''Missing expected columns in CSV: '' @ py_join '', '' (sort missing))"
      unfolding py_contains_iff by blast
  qed
  with r show ?thesis by blast
qed

theorem missing_columns_rejected_witness:
  "read_submissions [''responses.csv'' \<mapsto> no_theme_table] ''responses.csv''
     = Inl (ValueError ''Missing expected columns in CSV: theme name'')
   \<and> py_contains ''theme name'' ''Missing expected columns in CSV: theme name''"
proof -
  let ?fs = "[''responses.csv'' \<mapsto> no_theme_table]"
  let ?headers = "[''Full Name'', ''Description about your photograph'', ''Submit your view (Photo upload)'']"
  have a: "?fs ''responses.csv'' = Some no_theme_table" by simp
  have b: "?headers = (case no_theme_table of [] \<Rightarrow> [] | h # _ \<Rightarrow> h)"
    by (simp add: no_theme_table_def)
  have c: "[''theme name''] = [label \<leftarrow> map fst REQUIRED_KEYS. label \<notin> set (map normalize_key ?headers)]"
    by code_simp
  have d: "[''theme name''] \<noteq> []" by simp
  have s: "sort [''theme name''] = [''theme name'']" by simp
  note t = missing_columns_rejected [of ?fs "''responses.csv''" no_theme_table ?headers
              "[''theme name'']", OF a b c d]
  from t show ?thesis unfolding s by simp
qed


lemma header_complete:
  assumes "\<forall>label \<in> set (map fst REQUIRED_KEYS). label \<in> set (map normalize_key headers)"
  shows "prepare_header_map headers = Inr (add_headers headers Map.empty)"
    and "complete_header_map (add_headers headers Map.empty)"
proof -
  have "[label \<leftarrow> map fst REQUIRED_KEYS. label \<notin> set (map normalize_key headers)] = []"
    using assms by (simp only: filter_empty_conv) blast
  then have "missing_labels (add_headers headers Map.empty) = []"
    by (simp only: missing_labels_eq)
  then show "prepare_header_map headers = Inr (add_headers headers Map.empty)"
    by (simp add: prepare_header_map_def Let_def)
  have k: "(''full name'', ''participant_name'') \<in> set REQUIRED_KEYS"
          "(''theme name'', ''theme'') \<in> set REQUIRED_KEYS"
          "(''description about your photograph'', ''description'') \<in> set REQUIRED_KEYS"
          "(''submit your view (photo upload)'', ''photo_links'') \<in> set REQUIRED_KEYS"
    by (simp_all add: REQUIRED_KEYS_def)
  have "\<And>l a. (l, a) \<in> set REQUIRED_KEYS \<Longrightarrow> add_headers headers Map.empty a \<noteq> None"
  proof -
    fix l a assume m: "(l, a) \<in> set REQUIRED_KEYS"
    then have "l \<in> set (map fst REQUIRED_KEYS)" by force
    with assms have "l \<in> set (map normalize_key headers)" by blast
    then show "add_headers headers Map.empty a \<noteq> None"
      by (simp only: header_missing_iff [OF m] not_not)
  qed
  with k show "complete_header_map (add_headers headers Map.empty)"
    unfolding complete_header_map_def by blast
qed

lemma add_photos_result:
  assumes "entry ''participant_name'' = Some n" "entry ''theme'' = Some t"
    and "entry ''description'' = Some d"
  shows "\<exists>new. add_photos entry idx links (photos, seq) = Inr (photos @ new, seq + int (length links))
           \<and> map url new = links
           \<and> (\<forall>i < length new. sequence (new ! i) = seq + int i)"
proof (induction links arbitrary: photos seq)
  case Nil
  have "add_photos entry idx [] (photos, seq) = Inr (photos @ [], seq + int (length ([]::string list)))
          \<and> map url [] = ([]::string list)
          \<and> (\<forall>i < length ([]::ParticipantPhoto list). sequence ([] ! i) = seq + int i)"
    by simp
  then show ?case by (rule exI)
next
  case (Cons link links)
  define p where "p = \<lparr>sequence = seq, submission_index = idx, participant_name = n, theme = t,
             description = d, url = link, local_path = None, orientation = None\<rparr>"
  have pf: "sequence p = seq" "url p = link" by (simp_all add: p_def)
  from Cons.IH [of "photos @ [p]" "seq + 1"] obtain new where new:
    "add_photos entry idx links (photos @ [p], seq + 1)
       = Inr ((photos @ [p]) @ new, (seq + 1) + int (length links))
     \<and> map url new = links \<and> (\<forall>i < length new. sequence (new ! i) = (seq + 1) + int i)" ..
  have s: "add_photos entry idx (link # links) (photos, seq)
             = add_photos entry idx links (photos @ [p], seq + 1)"
    using assms by (simp add: dict_get_def p_def)
  have nth: "\<forall>i < length (p # new). sequence ((p # new) ! i) = seq + int i"
  proof (intro allI impI)
    fix i assume a: "i < length (p # new)"
    show "sequence ((p # new) ! i) = seq + int i"
    proof (cases i)
      case 0
      then show ?thesis by (simp add: pf)
    next
      case (Suc j)
      with a have "j < length new" by simp
      then have "sequence (new ! j) = (seq + 1) + int j"
        using new [THEN conjunct2, THEN conjunct2] by (rule_tac allE) auto
      with Suc show ?thesis by simp
    qed
  qed
  have r: "add_photos entry idx (link # links) (photos, seq)
          = Inr (photos @ (p # new), seq + int (length (link # links)))"
    unfolding s new [THEN conjunct1] by simp
  have u: "map url (p # new) = link # links"
    using new [THEN conjunct2, THEN conjunct1] by (simp add: pf)
  from r u nth have "add_photos entry idx (link # links) (photos, seq)
          = Inr (photos @ (p # new), seq + int (length (link # links)))
        \<and> map url (p # new) = link # links
        \<and> (\<forall>i < length (p # new). sequence ((p # new) ! i) = seq + int i)"
    by (intro conjI)
  then show ?case by (rule exI)
qed


lemma map_row_skip:
  assumes "complete_header_map hm"
    and "row_cell hm fns row ''participant_name'' = [] \<or> row_cell hm fns row ''theme'' = []"
  shows "map_row hm (dict_row fns row) = Inr None"
  using assms
  by (auto simp: map_row_def row_cell_def dict_get_def complete_header_map_def Let_def
           split: option.splits)

lemma map_row_entry:
  assumes "complete_header_map hm"
    and "row_cell hm fns row ''participant_name'' \<noteq> []"
    and "row_cell hm fns row ''theme'' \<noteq> []"
  shows "\<exists>entry. map_row hm (dict_row fns row) = Inr (Some entry)
           \<and> entry ''participant_name'' = Some (row_cell hm fns row ''participant_name'')
           \<and> entry ''theme'' = Some (row_cell hm fns row ''theme'')
           \<and> entry ''description'' = Some (row_cell hm fns row ''description'')
           \<and> entry ''photo_links'' = Some (row_cell hm fns row ''photo_links'')"
  using assms
  by (auto simp: map_row_def row_cell_def dict_get_def complete_header_map_def Let_def
           split: option.splits)



lemma split_links_eq:
  "split_links v = filter (\<lambda>t. t \<noteq> []) (map py_strip (py_split_on CHR '','' v))"
  by (simp add: split_links_def py_strip_def strip_with_def)

lemma read_rows_result:
  assumes c: "complete_header_map hm"
  shows "\<exists>new. read_rows hm fns rows idx (photos, seq) = Inr (photos @ new)
           \<and> map url new = concat (map (row_links hm fns) rows)
           \<and> (\<forall>i < length new. sequence (new ! i) = seq + int i)"
proof (induction rows arbitrary: idx photos seq)
  case Nil
  have "read_rows hm fns [] idx (photos, seq) = Inr (photos @ [])
          \<and> map url [] = concat (map (row_links hm fns) [])
          \<and> (\<forall>i < length ([]::ParticipantPhoto list). sequence ([] ! i) = seq + int i)"
    by simp
  then show ?case by (rule exI)
next
  case (Cons row rows)
  have skip: "\<exists>new. read_rows hm fns (row # rows) idx (photos, seq) = Inr (photos @ new)
           \<and> map url new = concat (map (row_links hm fns) (row # rows))
           \<and> (\<forall>i < length new. sequence (new ! i) = seq + int i)"
    if e: "read_rows hm fns (row # rows) idx (photos, seq) = read_rows hm fns rows idx' (photos, seq)"
      and l: "row_links hm fns row = []" for idx'
  proof -
    from Cons.IH [of idx' photos seq] obtain new where
      "read_rows hm fns rows idx' (photos, seq) = Inr (photos @ new)
           \<and> map url new = concat (map (row_links hm fns) rows)
           \<and> (\<forall>i < length new. sequence (new ! i) = seq + int i)" ..
    then have "read_rows hm fns (row # rows) idx (photos, seq) = Inr (photos @ new)
           \<and> map url new = concat (map (row_links hm fns) (row # rows))
           \<and> (\<forall>i < length new. sequence (new ! i) = seq + int i)"
      using e l by simp
    then show ?thesis by (rule exI)
  qed
  show ?case
  proof (cases "row = []")
    case True
    then have "read_rows hm fns (row # rows) idx (photos, seq) = read_rows hm fns rows idx (photos, seq)"
      by simp
    moreover have "row_links hm fns row = []" using True by (simp add: row_links_def)
    ultimately show ?thesis by (rule skip)
  next
    case ne: False
    show ?thesis
    proof (cases "row_cell hm fns row ''participant_name'' = [] \<or> row_cell hm fns row ''theme'' = []")
      case True
      then have "map_row hm (dict_row fns row) = Inr None" using c by (simp add: map_row_skip)
      then have "read_rows hm fns (row # rows) idx (photos, seq)
                   = read_rows hm fns rows (idx + 1) (photos, seq)"
        using ne by simp
      moreover have "row_links hm fns row = []" using True by (auto simp: row_links_def)
      ultimately show ?thesis by (rule skip)
    next
      case False
      then have nt: "row_cell hm fns row ''participant_name'' \<noteq> []"
                    "row_cell hm fns row ''theme'' \<noteq> []" by simp_all
      from map_row_entry [OF c nt, of] obtain entry where entry:
        "map_row hm (dict_row fns row) = Inr (Some entry)
           \<and> entry ''participant_name'' = Some (row_cell hm fns row ''participant_name'')
           \<and> entry ''theme'' = Some (row_cell hm fns row ''theme'')
           \<and> entry ''description'' = Some (row_cell hm fns row ''description'')
           \<and> entry ''photo_links'' = Some (row_cell hm fns row ''photo_links'')" ..
      let ?links = "row_links hm fns row"
      have links: "split_links (row_cell hm fns row ''photo_links'') = ?links"
        using ne nt by (simp add: split_links_eq row_links_def)
      have step: "read_rows hm fns (row # rows) idx (photos, seq) =
                    (if ?links = [] then read_rows hm fns rows (idx + 1) (photos, seq)
                     else (case add_photos entry idx ?links (photos, seq) of
                             Inl e \<Rightarrow> Inl e
                           | Inr st \<Rightarrow> read_rows hm fns rows (idx + 1) st))"
        using ne entry links by (simp add: dict_get_def Let_def)
      show ?thesis
      proof (cases "?links = []")
        case True
        with step have "read_rows hm fns (row # rows) idx (photos, seq)
                   = read_rows hm fns rows (idx + 1) (photos, seq)"
          by simp
        then show ?thesis using True by (rule skip)
      next
        case False
        from add_photos_result [of entry _ _ _ idx ?links photos seq] entry obtain new1 where new1:
          "add_photos entry idx ?links (photos, seq) = Inr (photos @ new1, seq + int (length ?links))
           \<and> map url new1 = ?links
           \<and> (\<forall>i < length new1. sequence (new1 ! i) = seq + int i)"
          by blast
        then have len: "length new1 = length ?links"
          by (metis length_map)
        from Cons.IH [of "idx + 1" "photos @ new1" "seq + int (length ?links)"] obtain new2 where new2:
          "read_rows hm fns rows (idx + 1) (photos @ new1, seq + int (length ?links))
             = Inr ((photos @ new1) @ new2)
           \<and> map url new2 = concat (map (row_links hm fns) rows)
           \<and> (\<forall>i < length new2. sequence (new2 ! i) = (seq + int (length ?links)) + int i)" ..
        have r: "read_rows hm fns (row # rows) idx (photos, seq) = Inr (photos @ (new1 @ new2))"
          using step False new1 new2 by simp
        have u: "map url (new1 @ new2) = concat (map (row_links hm fns) (row # rows))"
          using new1 new2 by simp
        have nth: "\<forall>i < length (new1 @ new2). sequence ((new1 @ new2) ! i) = seq + int i"
        proof (intro allI impI)
          fix i assume a: "i < length (new1 @ new2)"
          show "sequence ((new1 @ new2) ! i) = seq + int i"
          proof (cases "i < length new1")
            case True
            then show ?thesis using new1 by (simp add: nth_append)
          next
            case False
            with a have b: "i - length new1 < length new2" by simp
            then have "sequence (new2 ! (i - length new1))
                         = (seq + int (length ?links)) + int (i - length new1)"
              using new2 by simp
            with False len show ?thesis by (simp add: nth_append)
          qed
        qed
        from r u nth have "read_rows hm fns (row # rows) idx (photos, seq) = Inr (photos @ (new1 @ new2))
           \<and> map url (new1 @ new2) = concat (map (row_links hm fns) (row # rows))
           \<and> (\<forall>i < length (new1 @ new2). sequence ((new1 @ new2) ! i) = seq + int i)"
          by (intro conjI)
        then show ?thesis by (rule exI)
      qed
    qed
  qed
qed


text \<open>
  C2. For an existing file whose header row has the four required columns,
  \<open>read_submissions\<close> returns a list of photos whose URLs are the links of the rows, row
  after row and link after link within a row, where an empty row, a row with an empty
  trimmed name or theme and a row whose links cell has no non-empty token contribute
  nothing. The number of photos is the total number of those links, and the photo at
  position \<open>i\<close>, counted from 0, has the sequence number \<open>i + 1\<close>.
\<close>

theorem read_submissions_sequence:
  assumes "fs csv_path = Some (headers # rows)"
    and "\<forall>label \<in> set (map fst REQUIRED_KEYS). label \<in> set (map normalize_key headers)"
    and "hm = add_headers headers Map.empty"
  shows "\<exists>photos. read_submissions fs csv_path = Inr photos
           \<and> map url photos = concat (map (row_links hm headers) rows)
           \<and> length photos = sum_list (map (\<lambda>row. length (row_links hm headers row)) rows)
           \<and> (\<forall>i < length photos. sequence (photos ! i) = int i + 1)"
proof -
  have p: "prepare_header_map headers = Inr hm" and c: "complete_header_map hm"
    unfolding assms(3) using header_complete [OF assms(2)] by simp_all
  from read_rows_result [OF c, of headers rows 1 "[]" 1] obtain photos where photos:
    "read_rows hm headers rows 1 ([], 1) = Inr ([] @ photos)
       \<and> map url photos = concat (map (row_links hm headers) rows)
       \<and> (\<forall>i < length photos. sequence (photos ! i) = 1 + int i)" ..
  have r: "read_submissions fs csv_path = Inr photos"
    using photos p by (simp add: read_submissions_def assms(1))
  have u: "map url photos = concat (map (row_links hm headers) rows)"
    using photos by simp
  have "length (map url photos) = length (concat (map (row_links hm headers) rows))"
    by (simp only: u)
  then have l: "length photos = sum_list (map (\<lambda>row. length (row_links hm headers row)) rows)"
    by (simp add: length_concat comp_def)
  have n: "\<forall>i < length photos. sequence (photos ! i) = int i + 1"
    using photos by simp
  from r u l n have "read_submissions fs csv_path = Inr photos
           \<and> map url photos = concat (map (row_links hm headers) rows)
           \<and> length photos = sum_list (map (\<lambda>row. length (row_links hm headers row)) rows)
           \<and> (\<forall>i < length photos. sequence (photos ! i) = int i + 1)"
    by (intro conjI)
  then show ?thesis by (rule exI)
qed

theorem read_submissions_sequence_witness:
  "read_submissions [''responses.csv'' \<mapsto> demo_table] ''responses.csv'' = Inr demo_photos
   \<and> concat (map (row_links (add_headers (hd demo_table) Map.empty) (hd demo_table)) (tl demo_table))
       = [''http://a'', ''http://b'', ''http://d'']
   \<and> sum_list (map (\<lambda>row. length (row_links (add_headers (hd demo_table) Map.empty) (hd demo_table) row))
         (tl demo_table)) = 3
   \<and> map sequence demo_photos = [1, 2, 3]
   \<and> read_submissions [''responses.csv'' \<mapsto> repeated_header_table] ''responses.csv''
       = Inr repeated_header_photos
   \<and> map (row_links (add_headers (hd repeated_header_table) Map.empty) (hd repeated_header_table))
         (tl repeated_header_table) = [[], [''http://b'']]"
proof -
  let ?fs = "[''responses.csv'' \<mapsto> demo_table]"
  have v: "read_submissions ?fs ''responses.csv'' = Inr demo_photos"
    by code_simp
  have a: "?fs ''responses.csv'' = Some (hd demo_table # tl demo_table)"
    by (simp add: demo_table_def)
  have b: "\<forall>label \<in> set (map fst REQUIRED_KEYS). label \<in> set (map normalize_key (hd demo_table))"
    by code_simp
  from read_submissions_sequence [of ?fs "''responses.csv''" "hd demo_table" "tl demo_table"
         "add_headers (hd demo_table) Map.empty", OF a b refl]
  obtain photos where photos:
    "read_submissions ?fs ''responses.csv'' = Inr photos
     \<and> map url photos
         = concat (map (row_links (add_headers (hd demo_table) Map.empty) (hd demo_table)) (tl demo_table))
     \<and> length photos
         = sum_list (map (\<lambda>row. length (row_links (add_headers (hd demo_table) Map.empty) (hd demo_table) row))
             (tl demo_table))
     \<and> (\<forall>i < length photos. sequence (photos ! i) = int i + 1)" ..
  with v have e: "photos = demo_photos" by simp
  have m: "map url demo_photos = [''http://a'', ''http://b'', ''http://d'']"
          "length demo_photos = 3" "map sequence demo_photos = [1, 2, 3]"
    by (simp_all add: demo_photos_def)
  let ?gs = "[''responses.csv'' \<mapsto> repeated_header_table]"
  have v2: "read_submissions ?gs ''responses.csv'' = Inr repeated_header_photos"
    by code_simp
  have a2: "?gs ''responses.csv'' = Some (hd repeated_header_table # tl repeated_header_table)"
    by (simp add: repeated_header_table_def)
  have b2: "\<forall>label \<in> set (map fst REQUIRED_KEYS).
              label \<in> set (map normalize_key (hd repeated_header_table))"
    by code_simp
  from read_submissions_sequence [of ?gs "''responses.csv''" "hd repeated_header_table"
         "tl repeated_header_table" "add_headers (hd repeated_header_table) Map.empty", OF a2 b2 refl]
  obtain photos2 where photos2:
    "read_submissions ?gs ''responses.csv'' = Inr photos2
     \<and> map url photos2
         = concat (map (row_links (add_headers (hd repeated_header_table) Map.empty)
                          (hd repeated_header_table)) (tl repeated_header_table))
     \<and> length photos2
         = sum_list (map (\<lambda>row. length (row_links (add_headers (hd repeated_header_table) Map.empty)
                                            (hd repeated_header_table) row))
             (tl repeated_header_table))
     \<and> (\<forall>i < length photos2. sequence (photos2 ! i) = int i + 1)" ..
  have l2: "map (row_links (add_headers (hd repeated_header_table) Map.empty) (hd repeated_header_table))
         (tl repeated_header_table) = [[], [''http://b'']]"
    by code_simp
  from photos [unfolded e] m v v2 l2 show ?thesis by simp
qed

section \<open>Layouts through dictionaries\<close>

lemma Rectangle_roundtrip: "Rectangle_from_dict (Rectangle_to_dict r) = Inr r"
  by (simp add: Rectangle_from_dict_def Rectangle_to_dict_def subscript_def bind_def)

lemma TextStyle_roundtrip: "TextStyle_from_dict (TextStyle_to_dict st) = Inr st"
  by (simp add: TextStyle_from_dict_def TextStyle_to_dict_def get_or_def bind_def)

lemma TextField_roundtrip: "TextField_from_dict (TextField_to_dict f) = Inr f"
  by (simp add: TextField_from_dict_def TextField_to_dict_def get_or_def subscript_def bind_def
        Rectangle_roundtrip TextStyle_roundtrip)

lemma Orientation_roundtrip: "Orientation_of_value (JStr (orientation_value ori)) = Inr ori"
  by (cases ori) (simp_all add: Orientation_of_value_def)

lemma TextField_truthy: "py_bool (TextField_to_dict f)"
  by (simp add: TextField_to_dict_def)

lemma badge_roundtrip:
  "(let v = (case b of None \<Rightarrow> JNone | Some f \<Rightarrow> TextField_to_dict f)
    in if py_bool v then bind (TextField_from_dict v) (\<lambda>f. Inr (Some f)) else Inr None) = Inr b"
  by (cases b) (simp_all add: TextField_truthy TextField_roundtrip bind_def)

lemma from_dict_to_dict:
  "from_dict resolve (to_dict layout)
     = (case resource_path resolve (template_path layout) of
          Inl e \<Rightarrow> Inl e
        | Inr p \<Rightarrow> Inr (layout\<lparr>template_path := p\<rparr>))"
proof (cases "resource_path resolve (template_path layout)")
  case (Inl e)
  then show ?thesis
    by (simp add: from_dict_def to_dict_def get_or_def subscript_def bind_def
          resource_path_value_def Orientation_roundtrip)
next
  case (Inr p)
  then show ?thesis
    using badge_roundtrip [of "badge layout"]
    by (simp add: from_dict_def to_dict_def get_or_def subscript_def bind_def Let_def
          resource_path_value_def Rectangle_roundtrip TextField_roundtrip Orientation_roundtrip)
qed

text \<open>
  C4 (amended). For every valid layout, with or without a badge, that is every layout
  whose fields have the types the dataclasses declare, \<open>from_dict\<close> applied to
  \<open>to_dict\<close> of the layout reproduces the layout in every field except the template
  path, which comes back as \<^verbatim>\<open>_resource_path\<close> makes it: unchanged when empty, else
  its resolved absolute form, \<open>from_dict\<close> raising what the resolution raises. The result
  is equal to the original layout when the template path is empty or resolves to
  itself.
\<close>

theorem layout_roundtrip:
  "from_dict resolve (to_dict layout)
     = (case resource_path resolve (template_path layout) of
          Inl e \<Rightarrow> Inl e
        | Inr p \<Rightarrow> Inr (layout\<lparr>template_path := p\<rparr>))
   \<and> (template_path layout = [] \<or> resolve (template_path layout) = Inr (template_path layout)
        \<longrightarrow> from_dict resolve (to_dict layout) = Inr layout)"
  by (auto simp: from_dict_to_dict resource_path_def)

theorem layout_roundtrip_witness:
  "resolve_in_home (template_path absolute_layout) = Inr (template_path absolute_layout)
   \<and> badge absolute_layout = Some demo_field
   \<and> from_dict resolve_in_home (to_dict absolute_layout) = Inr absolute_layout
   \<and> template_path (demo_layout\<lparr>template_path := []\<rparr>) = []
   \<and> badge (demo_layout\<lparr>template_path := []\<rparr>) = None
   \<and> from_dict resolve_in_home (to_dict (demo_layout\<lparr>template_path := []\<rparr>))
       = Inr (demo_layout\<lparr>template_path := []\<rparr>)
   \<and> resource_path resolve_in_home (template_path demo_layout) = Inr ''/home/user/template.png''
   \<and> from_dict resolve_in_home (to_dict demo_layout)
       = Inr (demo_layout\<lparr>template_path := ''/home/user/template.png''\<rparr>)
   \<and> from_dict resolve_in_home (to_dict unresolved_layout)
       = Inl (RuntimeError ''Could not determine home directory.'')"
proof -
  have a: "resolve_in_home (template_path absolute_layout) = Inr (template_path absolute_layout)"
    by (simp add: absolute_layout_def resolve_in_home_def)
  have b: "badge absolute_layout = Some demo_field" by (simp add: absolute_layout_def)
  have c: "from_dict resolve_in_home (to_dict absolute_layout) = Inr absolute_layout"
    using layout_roundtrip [of resolve_in_home absolute_layout, THEN conjunct2] a
    by (rule_tac mp) simp_all
  have d: "template_path (demo_layout\<lparr>template_path := []\<rparr>) = []" by simp
  have e: "badge (demo_layout\<lparr>template_path := []\<rparr>) = None" by (simp add: demo_layout_def)
  have f: "from_dict resolve_in_home (to_dict (demo_layout\<lparr>template_path := []\<rparr>))
       = Inr (demo_layout\<lparr>template_path := []\<rparr>)"
    using layout_roundtrip [of resolve_in_home "demo_layout\<lparr>template_path := []\<rparr>", THEN conjunct2] d
    by (rule_tac mp) simp_all
  have g: "resource_path resolve_in_home (template_path demo_layout) = Inr ''/home/user/template.png''"
    by (simp add: demo_layout_def resource_path_def resolve_in_home_def)
  have h: "from_dict resolve_in_home (to_dict demo_layout)
       = Inr (demo_layout\<lparr>template_path := ''/home/user/template.png''\<rparr>)"
    using layout_roundtrip [of resolve_in_home demo_layout, THEN conjunct1] unfolding g by simp
  have u: "resource_path resolve_in_home (template_path unresolved_layout)
             = Inl (RuntimeError ''Could not determine home directory.'')"
    by (simp add: unresolved_layout_def resource_path_def resolve_in_home_def)
  have i: "from_dict resolve_in_home (to_dict unresolved_layout)
       = Inl (RuntimeError ''Could not determine home directory.'')"
    using layout_roundtrip [of resolve_in_home unresolved_layout, THEN conjunct1] unfolding u by simp
  from a b c d e f g h i show ?thesis by (intro conjI)
qed

theorem layout_roundtrip_counterexample:
  "template_path demo_layout = ''template.png''
   \<and> badge demo_layout = None
   \<and> from_dict resolve_in_home (to_dict demo_layout)
       = Inr (demo_layout\<lparr>template_path := ''/home/user/template.png''\<rparr>)
   \<and> from_dict resolve_in_home (to_dict demo_layout) \<noteq> Inr demo_layout"
proof -
  have a: "template_path demo_layout = ''template.png''" "badge demo_layout = None"
    by (simp_all add: demo_layout_def)
  have r: "resource_path resolve_in_home ''template.png'' = Inr ''/home/user/template.png''"
    by (simp add: resource_path_def resolve_in_home_def)
  have c: "from_dict resolve_in_home (to_dict demo_layout)
       = Inr (demo_layout\<lparr>template_path := ''/home/user/template.png''\<rparr>)"
    unfolding from_dict_to_dict a(1) r by simp
  have "template_path (demo_layout\<lparr>template_path := ''/home/user/template.png''\<rparr>)
          \<noteq> template_path demo_layout"
    unfolding a(1) by simp
  then have "demo_layout\<lparr>template_path := ''/home/user/template.png''\<rparr> \<noteq> demo_layout"
    by metis
  then have d: "from_dict resolve_in_home (to_dict demo_layout) \<noteq> Inr demo_layout"
    unfolding c by simp
  from a c d show ?thesis by (intro conjI)
qed

end
